theory Spec2Isabelle
  imports Complex_Main "HOL-Library.Product_Lexorder"
begin

section \<open>Data model of \<open>run_pre_processing.py\<close>\<close>

text \<open>
  The embedding follows \<open>pre_process\<close> (lines 93 to 248 of the source).

  \<^item> A \<open>datetime\<close> is modelled by the integer number of seconds of its POSIX timestamp,
    so \<open>date_current.timestamp()\<close> is the identity and the hourly \<open>time_step\<close> adds 3600.
  \<^item> A float64 that the program reads as data (weather, volumes, coordinates, estimates)
    is a \<open>real\<close>: rounding is not modelled. What numpy returns where real arithmetic has
    no value is modelled: the mean and the standard deviation of an empty sequence are
    \<open>nan\<close> (here \<open>None\<close>), and a float64 division by zero is \<open>inf\<close>, \<open>-inf\<close> or
    \<open>nan\<close> and raises nothing.
  \<^item> A dict that the program enumerates is an association list in the dict's order
    (its keys are distinct in Python); a dict that is only looked up is a map.
  \<^item> The exceptions that \<open>pre_process\<close> raises on such arguments are values of
    \<open>error\<close>: the \<open>AxisError\<close> of a statistic over no rows and the \<open>KeyError\<close> of a
    subscript with a missing key. \<open>insert_many\<close> is taken to store the batch it is given,
    and \<open>print\<close> is left out.
  \<^item> The closure \<open>normalize\<close> is named \<open>normalize_value\<close> here, the closures take the
    statistics as an argument, and the loops are recursive functions named after what
    they iterate over.
\<close>

datatype error = AxisError | KeyError

datatype npfloat = Fin real | PosInf | NegInf | NaN

type_synonym point = "real \<times> real"
type_synonym link = "int \<times> int"
type_synonym weather = "real \<times> real \<times> real \<times> real"
type_synonym area = "(string \<times> point) list"

text \<open>A value of the \<open>mesh\<close> dict: \<open>{'coord': ..., 'links': [...]}\<close>.\<close>

record mesh_cell =
  coord :: area
  links :: "link list"

text \<open>The two entries of \<open>utilities\<close> that \<open>pre_process\<close> reads.\<close>

record utility_data =
  bounding_box :: area
  links_in_area :: "link \<rightharpoonup> (point \<times> point)"

text \<open>The dict \<open>data\<close> built at lines 229 to 232.\<close>

record processed_record =
  mesh_size :: nat
  sub_domain :: int
  input :: "npfloat list"
  labels :: "real list"

text \<open>
  What \<open>pre_process\<close> takes from modules that are not part of the source file:
  the names of \<open>pollutant.Pollutant\<close> in enumeration order (\<open>get_name()\<close> of each member),
  \<open>udd.is_point_in_area\<close>, and the dict returned by
  \<open>um.get_empirical_background_pollution()\<close>.
\<close>

record externals =
  Pollutant :: "string list"
  is_point_in_area :: "point \<Rightarrow> area \<Rightarrow> bool"
  get_empirical_background_pollution :: "string \<rightharpoonup> real"

section \<open>Normalization (lines 115 to 148)\<close>

text \<open>\<open>np.mean\<close> and \<open>np.std\<close> of a one-dimensional sequence; \<open>None\<close> is \<open>nan\<close>.\<close>

definition np_mean :: "real list \<Rightarrow> real option" where
  "np_mean xs = (if xs = [] then None else Some (sum_list xs / real (length xs)))"

definition np_std :: "real list \<Rightarrow> real option" where
  "np_std xs =
     (case np_mean xs of
        None \<Rightarrow> None
      | Some mu \<Rightarrow> Some (sqrt (sum_list (map (\<lambda>x. \<bar>x - mu\<bar> ^ 2) xs) / real (length xs))))"

text \<open>
  \<open>normalize\<close> (line 116) on float64 operands: \<open>(val - mean) / std\<close>. A \<open>nan\<close> operand
  gives \<open>nan\<close>; a zero \<open>std\<close> gives \<open>inf\<close>, \<open>-inf\<close> or \<open>nan\<close> by the sign of the
  numerator.
\<close>

definition normalize_value :: "real \<Rightarrow> real option \<Rightarrow> real option \<Rightarrow> npfloat" where
  "normalize_value val mean std =
     (case mean of
        None \<Rightarrow> NaN
      | Some m \<Rightarrow>
          (case std of
             None \<Rightarrow> NaN
           | Some s \<Rightarrow>
               if s \<noteq> 0 then Fin ((val - m) / s)
               else if 0 < val - m then PosInf
               else if val - m < 0 then NegInf
               else NaN))"

text \<open>The statistics computed once at lines 134 to 148 and captured by the closures.\<close>

record stats =
  time_mean :: "real option"
  time_std :: "real option"
  weather_mean :: "real option \<times> real option \<times> real option \<times> real option"
  weather_std :: "real option \<times> real option \<times> real option \<times> real option"
  volumes_mean :: "real option"
  volumes_std :: "real option"
  coord_mean :: "real option \<times> real option"
  coord_std :: "real option \<times> real option"

definition normalize_time :: "stats \<Rightarrow> int \<Rightarrow> npfloat" where
  "normalize_time st timestamp = normalize_value (real_of_int timestamp) (time_mean st) (time_std st)"

definition normalize_weather :: "stats \<Rightarrow> weather \<Rightarrow> npfloat list" where
  "normalize_weather st weather_list =
     (case weather_list of (wind_dir, wind_speed, wind_dir_std, temp) \<Rightarrow>
      case weather_mean st of (m1, m2, m3, m4) \<Rightarrow>
      case weather_std st of (s1, s2, s3, s4) \<Rightarrow>
        [normalize_value wind_dir m1 s1, normalize_value wind_speed m2 s2,
         normalize_value wind_dir_std m3 s3, normalize_value temp m4 s4])"

definition normalize_traffic :: "stats \<Rightarrow> real \<Rightarrow> npfloat" where
  "normalize_traffic st volume = normalize_value volume (volumes_mean st) (volumes_std st)"

definition normalize_coords :: "stats \<Rightarrow> point \<Rightarrow> npfloat list" where
  "normalize_coords st coords =
     (case coords of (lat, lon) \<Rightarrow>
      case coord_mean st of (m1, m2) \<Rightarrow>
      case coord_std st of (s1, s2) \<Rightarrow>
        [normalize_value lat m1 s1, normalize_value lon m2 s2])"

text \<open>Lines 134 to 136: the statistic of the two-element list \<open>[start, end]\<close>.\<close>

definition time_interval :: "int \<Rightarrow> int \<Rightarrow> real list" where
  "time_interval date_start date_end = [real_of_int date_start, real_of_int date_end]"

text \<open>
  Lines 138 to 140: \<open>np.transpose\<close> of no rows is a one-dimensional empty array, and
  \<open>np.mean(..., 1)\<close> of it raises \<open>AxisError\<close>.
\<close>

definition weather_statistic ::
  "(int \<times> weather) list \<Rightarrow>
   error + ((real option \<times> real option \<times> real option \<times> real option) \<times>
            (real option \<times> real option \<times> real option \<times> real option))" where
  "weather_statistic weather_data =
     (let weather_values = map snd weather_data in
      if weather_values = [] then Inl AxisError
      else
        (let r1 = map (\<lambda>(a, b, c, d). a) weather_values;
             r2 = map (\<lambda>(a, b, c, d). b) weather_values;
             r3 = map (\<lambda>(a, b, c, d). c) weather_values;
             r4 = map (\<lambda>(a, b, c, d). d) weather_values
         in Inr ((np_mean r1, np_mean r2, np_mean r3, np_mean r4),
                 (np_std r1, np_std r2, np_std r3, np_std r4))))"

text \<open>Lines 142 to 144: every volume of every series, in dict order.\<close>

definition volumes_of :: "(int \<times> (link \<times> real) list) list \<Rightarrow> real list" where
  "volumes_of traffic_volumes = concat (map (\<lambda>(t, series). map snd series) traffic_volumes)"

text \<open>Lines 146 to 148: the corners of the bounding box; \<open>AxisError\<close> as for the weather.\<close>

definition coord_statistic ::
  "area \<Rightarrow> error + ((real option \<times> real option) \<times> (real option \<times> real option))" where
  "coord_statistic box =
     (let corners = map snd box in
      if corners = [] then Inl AxisError
      else
        (let lats = map fst corners; lons = map snd corners
         in Inr ((np_mean lats, np_mean lons), (np_std lats, np_std lons))))"

definition compute_stats ::
  "int \<Rightarrow> int \<Rightarrow> (int \<times> weather) list \<Rightarrow> (int \<times> (link \<times> real) list) list \<Rightarrow> utility_data \<Rightarrow>
   error + stats" where
  "compute_stats date_start date_end weather_data traffic_volumes utils =
     (case weather_statistic weather_data of
        Inl e \<Rightarrow> Inl e
      | Inr (w_mean, w_std) \<Rightarrow>
          (case coord_statistic (bounding_box utils) of
             Inl e \<Rightarrow> Inl e
           | Inr (c_mean, c_std) \<Rightarrow>
               Inr \<lparr> time_mean = np_mean (time_interval date_start date_end),
                     time_std = np_std (time_interval date_start date_end),
                     weather_mean = w_mean, weather_std = w_std,
                     volumes_mean = np_mean (volumes_of traffic_volumes),
                     volumes_std = np_std (volumes_of traffic_volumes),
                     coord_mean = c_mean, coord_std = c_std \<rparr>))"

section \<open>Arguments and loop state\<close>

text \<open>
  The arguments of \<open>pre_process\<close> (lines 93 to 95). The output collection
  \<open>collection_pre\<close> is part of the state below: the list of the batches passed to
  \<open>insert_many\<close>, one element per call, in call order.
\<close>

record arguments =
  date_start :: int
  date_end :: int
  mesh :: "(int \<times> mesh_cell) list"
  weather_data :: "(int \<times> weather) list"
  background_pollution :: "int \<rightharpoonup> (string \<times> real) list"
  traffic_volumes :: "(int \<times> (link \<times> real) list) list"
  utilities :: utility_data
  caline_estimates :: "int \<rightharpoonup> (point \<rightharpoonup> (string \<rightharpoonup> real))"
  receptor_list :: "point list"

text \<open>The variables that the \<open>while\<close> loop of lines 168 to 242 reads and writes.\<close>

record loop_state =
  date_current :: int
  current_background_pollution :: "string \<rightharpoonup> real"
  collection_of_pre_processed_entries :: "processed_record list"
  collection_pre :: "processed_record list list"

definition time_step :: int where
  "time_step = 3600"

definition max_collection_size :: nat where
  "max_collection_size = 100000"

section \<open>Spatial assignment (lines 154 to 159)\<close>

text \<open>\<open>receptor_coords\<close> is a \<open>defaultdict(list)\<close>: a total function, \<open>[]\<close> by default.\<close>

fun assign_receptors ::
  "externals \<Rightarrow> point list \<Rightarrow> (int \<times> mesh_cell) list \<Rightarrow> (int \<Rightarrow> point list) \<Rightarrow> (int \<Rightarrow> point list)" where
  "assign_receptors ext receptors [] receptor_coords = receptor_coords"
| "assign_receptors ext receptors ((sub_domain_id, cell) # rest) receptor_coords =
     assign_receptors ext receptors rest
       (receptor_coords(sub_domain_id :=
          sort_key (\<lambda>x. (fst x, snd x))
            (receptor_coords sub_domain_id @
             filter (\<lambda>receptor. is_point_in_area ext receptor (coord cell)) receptors)))"

section \<open>Background carry-forward (lines 180 to 184)\<close>

fun update_background :: "(string \<rightharpoonup> real) \<Rightarrow> (string \<times> real) list \<Rightarrow> (string \<rightharpoonup> real)" where
  "update_background bg [] = bg"
| "update_background bg ((pol, v) # rest) = update_background (bg(pol \<mapsto> v)) rest"

section \<open>Feature vector assembly (lines 190 to 232)\<close>

text \<open>\<open>tuple(sorted(link))\<close> of a two-endpoint link.\<close>

definition sorted_link :: "link \<Rightarrow> link" where
  "sorted_link l = (case l of (u, v) \<Rightarrow> if v < u then (v, u) else (u, v))"

text \<open>
  Lines 191 to 195: the canonical key and the geometry of every link; the geometry is
  looked up under the original key and a missing key raises \<open>KeyError\<close>. The two lists
  \<open>links\<close> and \<open>links_coords\<close> of the source are kept as one list of pairs.
\<close>

fun links_loop :: "(link \<rightharpoonup> (point \<times> point)) \<Rightarrow> link list \<Rightarrow> error + (link \<times> (point \<times> point)) list" where
  "links_loop lia [] = Inr []"
| "links_loop lia (l # ls) =
     (case lia l of
        None \<Rightarrow> Inl KeyError
      | Some links_coords \<Rightarrow>
          (case links_loop lia ls of
             Inl e \<Rightarrow> Inl e
           | Inr rest \<Rightarrow> Inr ((sorted_link l, links_coords) # rest)))"

text \<open>Lines 198 to 204: five scalars per link.\<close>

fun volume_loop :: "stats \<Rightarrow> (link \<times> real) list \<Rightarrow> (link \<times> (point \<times> point)) list \<Rightarrow> npfloat list" where
  "volume_loop st series [] = []"
| "volume_loop st series ((l, links_coords) # rest) =
     normalize_coords st (fst links_coords) @
     normalize_coords st (snd links_coords) @
     (case map_of series l of
        Some volume \<Rightarrow> [normalize_traffic st volume]
      | None \<Rightarrow> [Fin 0]) @
     volume_loop st series rest"

text \<open>
  Lines 191 to 206. \<open>[0] * n\<close> is the empty list for a negative \<open>n\<close>, which is what
  \<open>nat\<close> of a negative integer gives.
\<close>

definition current_traffic_volume ::
  "stats \<Rightarrow> (link \<rightharpoonup> (point \<times> point)) \<Rightarrow> (link \<times> real) list \<Rightarrow> link list \<Rightarrow> error + npfloat list" where
  "current_traffic_volume st lia series ls =
     (case links_loop lia ls of
        Inl e \<Rightarrow> Inl e
      | Inr keyed \<Rightarrow>
          Inr (volume_loop st series keyed @
               replicate (nat ((20 - int (length keyed)) * 5)) (Fin 0)))"

text \<open>
  Lines 214 to 219: the raw label of one receptor and one pollutant. The subscript
  \<open>current_background_pollution[poll]\<close> raises \<open>KeyError\<close> for a pollutant that the
  running mapping does not hold.
\<close>

definition raw_value ::
  "(point \<rightharpoonup> (string \<rightharpoonup> real)) \<Rightarrow> (string \<rightharpoonup> real) \<Rightarrow> point \<Rightarrow> string \<Rightarrow> error + real" where
  "raw_value estimates bg c poll =
     (case estimates c of
        None \<Rightarrow> Inr 0
      | Some by_pollutant \<Rightarrow>
          (case by_pollutant poll of
             None \<Rightarrow> Inr 0
           | Some estimate \<Rightarrow>
               (case bg poll of
                  None \<Rightarrow> Inl KeyError
                | Some b \<Rightarrow> Inr (estimate - b))))"

text \<open>Lines 212 to 221: the labels of one receptor, line 220 included.\<close>

fun pollutant_loop ::
  "(point \<rightharpoonup> (string \<rightharpoonup> real)) \<Rightarrow> (string \<rightharpoonup> real) \<Rightarrow> point \<Rightarrow> string list \<Rightarrow> error + real list" where
  "pollutant_loop estimates bg c [] = Inr []"
| "pollutant_loop estimates bg c (poll # polls) =
     (case raw_value estimates bg c poll of
        Inl e \<Rightarrow> Inl e
      | Inr v \<Rightarrow>
          (let v' = (if v < - 1 then 0 else v) in
           case pollutant_loop estimates bg c polls of
             Inl e \<Rightarrow> Inl e
           | Inr vs \<Rightarrow> Inr (v' # vs)))"

text \<open>Lines 208 to 221: \<open>current_receptors\<close> and \<open>current_estimates\<close>.\<close>

fun receptor_loop ::
  "stats \<Rightarrow> string list \<Rightarrow> (point \<rightharpoonup> (string \<rightharpoonup> real)) \<Rightarrow> (string \<rightharpoonup> real) \<Rightarrow> point list \<Rightarrow>
   error + (npfloat list \<times> real list)" where
  "receptor_loop st polls estimates bg [] = Inr ([], [])"
| "receptor_loop st polls estimates bg (c # cs) =
     (case pollutant_loop estimates bg c polls of
        Inl e \<Rightarrow> Inl e
      | Inr vs \<Rightarrow>
          (case receptor_loop st polls estimates bg cs of
             Inl e \<Rightarrow> Inl e
           | Inr (current_receptors, current_estimates) \<Rightarrow>
               Inr (normalize_coords st c @ current_receptors, vs @ current_estimates)))"

text \<open>Lines 190 to 232: the record of one sub-domain at one timestamp.\<close>

definition assemble ::
  "externals \<Rightarrow> arguments \<Rightarrow> stats \<Rightarrow> (int \<Rightarrow> point list) \<Rightarrow> (string \<rightharpoonup> real) \<Rightarrow>
   int \<Rightarrow> weather \<Rightarrow> (link \<times> real) list \<Rightarrow> (point \<rightharpoonup> (string \<rightharpoonup> real)) \<Rightarrow>
   int \<Rightarrow> mesh_cell \<Rightarrow> error + processed_record" where
  "assemble ext a st receptor_coords bg current_timestamp current_weather_data series estimates
            sub_domain_id cell =
     (case current_traffic_volume st (links_in_area (utilities a)) series (links cell) of
        Inl e \<Rightarrow> Inl e
      | Inr traffic \<Rightarrow>
          (case receptor_loop st (Pollutant ext) estimates bg (receptor_coords sub_domain_id) of
             Inl e \<Rightarrow> Inl e
           | Inr (current_receptors, current_estimates) \<Rightarrow>
               Inr \<lparr> mesh_size = length (mesh a),
                     sub_domain = sub_domain_id,
                     input = [normalize_time st current_timestamp] @
                             normalize_weather st current_weather_data @
                             traffic @ current_receptors,
                     labels = current_estimates \<rparr>))"

section \<open>Batched writer (lines 234 to 246)\<close>

text \<open>Lines 234 to 239: append, and flush when the buffer has reached the threshold.\<close>

definition collect_entry :: "loop_state \<Rightarrow> processed_record \<Rightarrow> loop_state" where
  "collect_entry s data =
     (let entries = collection_of_pre_processed_entries s @ [data] in
      if length entries < max_collection_size
      then s\<lparr>collection_of_pre_processed_entries := entries\<rparr>
      else s\<lparr>collection_of_pre_processed_entries := [],
             collection_pre := collection_pre s @ [entries]\<rparr>)"

text \<open>Lines 245 to 246: the last batch, when it is not empty.\<close>

definition final_flush :: "loop_state \<Rightarrow> processed_record list list" where
  "final_flush s =
     (if collection_of_pre_processed_entries s \<noteq> []
      then collection_pre s @ [collection_of_pre_processed_entries s]
      else collection_pre s)"

section \<open>Temporal aligner (lines 168 to 242)\<close>

text \<open>Lines 186 to 240: the loop over \<open>mesh.items()\<close> at one timestamp.\<close>

fun sub_domain_loop ::
  "externals \<Rightarrow> arguments \<Rightarrow> stats \<Rightarrow> (int \<Rightarrow> point list) \<Rightarrow>
   int \<Rightarrow> weather \<Rightarrow> (link \<times> real) list \<Rightarrow> (int \<times> mesh_cell) list \<Rightarrow> loop_state \<Rightarrow>
   error + loop_state" where
  "sub_domain_loop ext a st rc t w series [] s = Inr s"
| "sub_domain_loop ext a st rc t w series ((sub_domain_id, cell) # rest) s =
     (case caline_estimates a t of
        None \<Rightarrow> sub_domain_loop ext a st rc t w series rest s
      | Some estimates \<Rightarrow>
          (case assemble ext a st rc (current_background_pollution s) t w series estimates
                  sub_domain_id cell of
             Inl e \<Rightarrow> Inl e
           | Inr data \<Rightarrow> sub_domain_loop ext a st rc t w series rest (collect_entry s data)))"

text \<open>Lines 169 to 242: one iteration of the \<open>while\<close> loop.\<close>

definition loop_body ::
  "externals \<Rightarrow> arguments \<Rightarrow> stats \<Rightarrow> (int \<Rightarrow> point list) \<Rightarrow> loop_state \<Rightarrow> error + loop_state" where
  "loop_body ext a st rc s =
     (let current_timestamp = date_current s in
      case map_of (weather_data a) current_timestamp of
        None \<Rightarrow> Inr (s\<lparr>date_current := date_current s + time_step\<rparr>)
      | Some current_weather_data \<Rightarrow>
          (case map_of (traffic_volumes a) current_timestamp of
             None \<Rightarrow> Inr (s\<lparr>date_current := date_current s + time_step\<rparr>)
           | Some series \<Rightarrow>
               (let s1 = (case background_pollution a current_timestamp of
                            None \<Rightarrow> s
                          | Some update \<Rightarrow>
                              s\<lparr>current_background_pollution :=
                                   update_background (current_background_pollution s) update\<rparr>)
                in case sub_domain_loop ext a st rc current_timestamp current_weather_data
                          series (mesh a) s1 of
                     Inl e \<Rightarrow> Inl e
                   | Inr s2 \<Rightarrow> Inr (s2\<lparr>date_current := date_current s2 + time_step\<rparr>))))"

text \<open>
  An iteration that returns has moved \<open>date_current\<close> on by one hour, whichever branch it
  took: this is what makes the \<open>while\<close> loop terminate.
\<close>

lemma collect_entry_date: "date_current (collect_entry s data) = date_current s"
  by (simp add: collect_entry_def Let_def)

lemma sub_domain_loop_date:
  "sub_domain_loop ext a st rc t w series cells s = Inr s' \<Longrightarrow> date_current s' = date_current s"
proof (induction cells arbitrary: s)
  case Nil
  then show ?case by simp
next
  case (Cons c cells)
  obtain sub_domain_id cell where c: "c = (sub_domain_id, cell)" by (cases c)
  from Cons.prems Cons.IH show ?case
    unfolding c by (auto split: option.splits sum.splits simp: collect_entry_date)
qed

lemma loop_body_date:
  "loop_body ext a st rc s = Inr s' \<Longrightarrow> date_current s' = date_current s + time_step"
  unfolding loop_body_def Let_def
  by (auto split: option.splits sum.splits dest!: sub_domain_loop_date)

text \<open>Lines 168 to 242: \<open>while date_current <= date_end\<close>.\<close>

function time_loop ::
  "externals \<Rightarrow> arguments \<Rightarrow> stats \<Rightarrow> (int \<Rightarrow> point list) \<Rightarrow> loop_state \<Rightarrow> error + loop_state" where
  "time_loop ext a st rc s =
     (if date_current s \<le> date_end a
      then (case loop_body ext a st rc s of
              Inl e \<Rightarrow> Inl e
            | Inr s' \<Rightarrow> time_loop ext a st rc s')
      else Inr s)"
  by pat_completeness auto
termination
proof (relation "measure (\<lambda>(ext, a, st, rc, s). nat (date_end a - date_current s + 1))")
  show "wf (measure (\<lambda>(ext, a, st, rc, s). nat (date_end a - date_current s + 1)))"
    by simp
next
  fix ext :: externals and a :: arguments and st :: stats and rc :: "int \<Rightarrow> point list"
    and s s' :: loop_state
  assume "date_current s \<le> date_end a" and "loop_body ext a st rc s = Inr s'"
  then show "((ext, a, st, rc, s'), (ext, a, st, rc, s))
      \<in> measure (\<lambda>(ext, a, st, rc, s). nat (date_end a - date_current s + 1))"
    using loop_body_date [of ext a st rc s s'] by (simp add: time_step_def)
qed

declare time_loop.simps [simp del]

section \<open>\<open>pre_process\<close> (lines 93 to 248)\<close>

text \<open>
  The result is the content of the output collection after a run that returns: the
  batches passed to \<open>insert_many\<close>, in call order. A run that raises is \<open>Inl\<close>.
\<close>

definition initial_state :: "externals \<Rightarrow> arguments \<Rightarrow> loop_state" where
  "initial_state ext a =
     \<lparr> date_current = date_start a,
       current_background_pollution = get_empirical_background_pollution ext,
       collection_of_pre_processed_entries = [],
       collection_pre = [] \<rparr>"

definition receptor_coords :: "externals \<Rightarrow> arguments \<Rightarrow> int \<Rightarrow> point list" where
  "receptor_coords ext a = assign_receptors ext (receptor_list a) (mesh a) (\<lambda>sub_domain_id. [])"

definition pre_process :: "externals \<Rightarrow> arguments \<Rightarrow> error + processed_record list list" where
  "pre_process ext a =
     (case compute_stats (date_start a) (date_end a) (weather_data a) (traffic_volumes a)
             (utilities a) of
        Inl e \<Rightarrow> Inl e
      | Inr st \<Rightarrow>
          (case time_loop ext a st (receptor_coords ext a) (initial_state ext a) of
             Inl e \<Rightarrow> Inl e
           | Inr s \<Rightarrow> Inr (final_flush s)))"

section \<open>The loop and the writer as sequences\<close>

text \<open>The state after \<open>n\<close> iterations of the loop body, when none of them raises.\<close>

fun iterations ::
  "externals \<Rightarrow> arguments \<Rightarrow> stats \<Rightarrow> (int \<Rightarrow> point list) \<Rightarrow> nat \<Rightarrow> loop_state \<Rightarrow>
   error + loop_state" where
  "iterations ext a st rc 0 s = Inr s"
| "iterations ext a st rc (Suc n) s =
     (case loop_body ext a st rc s of
        Inl e \<Rightarrow> Inl e
      | Inr s' \<Rightarrow> iterations ext a st rc n s')"

text \<open>
  The sequence of records that a run assembles, in assembly order: the loops of
  \<open>pre_process\<close> with the writer left out. \<open>assembled_at\<close> follows the loop over the
  sub-domains, \<open>next_background\<close> and \<open>assembled_in_iteration\<close> follow one iteration of
  the \<open>while\<close> loop, and \<open>assembled_records\<close> follows the \<open>while\<close> loop from a timestamp
  and a background mapping on.
\<close>

fun assembled_at ::
  "externals \<Rightarrow> arguments \<Rightarrow> stats \<Rightarrow> (int \<Rightarrow> point list) \<Rightarrow> (string \<rightharpoonup> real) \<Rightarrow>
   int \<Rightarrow> weather \<Rightarrow> (link \<times> real) list \<Rightarrow> (int \<times> mesh_cell) list \<Rightarrow>
   error + processed_record list" where
  "assembled_at ext a st rc bg t w series [] = Inr []"
| "assembled_at ext a st rc bg t w series ((sub_domain_id, cell) # rest) =
     (case caline_estimates a t of
        None \<Rightarrow> assembled_at ext a st rc bg t w series rest
      | Some estimates \<Rightarrow>
          (case assemble ext a st rc bg t w series estimates sub_domain_id cell of
             Inl e \<Rightarrow> Inl e
           | Inr data \<Rightarrow>
               (case assembled_at ext a st rc bg t w series rest of
                  Inl e \<Rightarrow> Inl e
                | Inr others \<Rightarrow> Inr (data # others))))"

definition next_background :: "arguments \<Rightarrow> int \<Rightarrow> (string \<rightharpoonup> real) \<Rightarrow> (string \<rightharpoonup> real)" where
  "next_background a t bg =
     (case map_of (weather_data a) t of
        None \<Rightarrow> bg
      | Some w \<Rightarrow>
          (case map_of (traffic_volumes a) t of
             None \<Rightarrow> bg
           | Some series \<Rightarrow>
               (case background_pollution a t of
                  None \<Rightarrow> bg
                | Some update \<Rightarrow> update_background bg update)))"

definition assembled_in_iteration ::
  "externals \<Rightarrow> arguments \<Rightarrow> stats \<Rightarrow> (int \<Rightarrow> point list) \<Rightarrow> int \<Rightarrow> (string \<rightharpoonup> real) \<Rightarrow>
   error + processed_record list" where
  "assembled_in_iteration ext a st rc t bg =
     (case map_of (weather_data a) t of
        None \<Rightarrow> Inr []
      | Some w \<Rightarrow>
          (case map_of (traffic_volumes a) t of
             None \<Rightarrow> Inr []
           | Some series \<Rightarrow>
               assembled_at ext a st rc (next_background a t bg) t w series (mesh a)))"

function assembled_records ::
  "externals \<Rightarrow> arguments \<Rightarrow> stats \<Rightarrow> (int \<Rightarrow> point list) \<Rightarrow> int \<Rightarrow> (string \<rightharpoonup> real) \<Rightarrow>
   error + processed_record list" where
  "assembled_records ext a st rc t bg =
     (if t \<le> date_end a
      then (case assembled_in_iteration ext a st rc t bg of
              Inl e \<Rightarrow> Inl e
            | Inr now \<Rightarrow>
                (case assembled_records ext a st rc (t + 3600) (next_background a t bg) of
                   Inl e \<Rightarrow> Inl e
                 | Inr later \<Rightarrow> Inr (now @ later)))
      else Inr [])"
  by pat_completeness auto
termination
  by (relation "measure (\<lambda>(ext, a, st, rc, t, bg). nat (date_end a - t + 1))") auto

declare assembled_records.simps [simp del]

text \<open>Two states hold the same buffer and the same inserted batches.\<close>

definition same_writer :: "loop_state \<Rightarrow> loop_state \<Rightarrow> bool" where
  "same_writer s s' =
     (collection_of_pre_processed_entries s = collection_of_pre_processed_entries s' \<and>
      collection_pre s = collection_pre s')"

text \<open>The records that a state holds: the inserted batches, then the buffer.\<close>

definition held :: "loop_state \<Rightarrow> processed_record list" where
  "held s = concat (collection_pre s) @ collection_of_pre_processed_entries s"

text \<open>
  The invariant of the writer: the buffer is below the threshold and every inserted
  batch has exactly the size of the threshold.
\<close>

definition writer_invariant :: "loop_state \<Rightarrow> bool" where
  "writer_invariant s =
     (length (collection_of_pre_processed_entries s) < max_collection_size \<and>
      list_all (\<lambda>batch. length batch = max_collection_size) (collection_pre s))"

text \<open>A float64 that is a number, neither \<open>inf\<close>, \<open>-inf\<close> nor \<open>nan\<close>.\<close>

definition is_finite :: "npfloat \<Rightarrow> bool" where
  "is_finite x = (case x of Fin v \<Rightarrow> True | PosInf \<Rightarrow> False | NegInf \<Rightarrow> False | NaN \<Rightarrow> False)"

text \<open>The exception that a result stands for, if any.\<close>

definition failure :: "error + 'a \<Rightarrow> error option" where
  "failure x = (case x of Inl e \<Rightarrow> Some e | Inr v \<Rightarrow> None)"

section \<open>A worked example\<close>

text \<open>
  A run over three hourly timestamps and two rectangular sub-domains, used to evaluate
  the definitions: timestamp 0 has every source, timestamp 3600 has no caline estimate,
  and timestamp 7200 has neither weather nor traffic volumes.
  \<open>in_rectangle\<close> stands for \<open>udd.is_point_in_area\<close> on axis-parallel rectangles given
  by two opposite corners.
\<close>

definition in_rectangle :: "point \<Rightarrow> area \<Rightarrow> bool" where
  "in_rectangle p ar =
     (list_ex (\<lambda>(k, c). fst c \<le> fst p) ar \<and> list_ex (\<lambda>(k, c). fst p \<le> fst c) ar \<and>
      list_ex (\<lambda>(k, c). snd c \<le> snd p) ar \<and> list_ex (\<lambda>(k, c). snd p \<le> snd c) ar)"

definition example_externals :: externals where
  "example_externals =
     \<lparr> Pollutant = [''NO2'', ''PM10'', ''PM25''],
       is_point_in_area = in_rectangle,
       get_empirical_background_pollution = [''NO2'' \<mapsto> 2, ''PM10'' \<mapsto> 3, ''PM25'' \<mapsto> 1] \<rparr>"

definition example_cell_6 :: mesh_cell where
  "example_cell_6 = \<lparr> coord = [(''sw'', (0, 0)), (''ne'', (2, 2))], links = [(2, 1)] \<rparr>"

definition example_cell_7 :: mesh_cell where
  "example_cell_7 = \<lparr> coord = [(''sw'', (2, 0)), (''ne'', (4, 2))], links = [] \<rparr>"

definition example_estimates :: "point \<rightharpoonup> (string \<rightharpoonup> real)" where
  "example_estimates = [(1, 1) \<mapsto> [''NO2'' \<mapsto> 5, ''PM10'' \<mapsto> 0]]"

definition example_arguments :: arguments where
  "example_arguments =
     \<lparr> date_start = 0,
       date_end = 7200,
       mesh = [(6, example_cell_6), (7, example_cell_7)],
       weather_data = [(0, (10, 2, 1 / 2, 15)), (3600, (12, 4, 3 / 2, 17))],
       background_pollution = [3600 \<mapsto> [(''NO2'', 4)], 7200 \<mapsto> [(''PM10'', 9)]],
       traffic_volumes = [(0, [((1, 2), 100)]), (3600, [((1, 2), 300)])],
       utilities = \<lparr> bounding_box = [(''sw'', (0, 0)), (''ne'', (4, 2))],
                     links_in_area = [(2, 1) \<mapsto> ((0, 0), (2, 2))] \<rparr>,
       caline_estimates = [0 \<mapsto> example_estimates],
       receptor_list = [(3, 1), (1, 1), (1, 1 / 2)] \<rparr>"

definition example_stats :: stats where
  "example_stats =
     \<lparr> time_mean = Some 3600, time_std = Some 3600,
       weather_mean = (Some 11, Some 3, Some 1, Some 16),
       weather_std = (Some 1, Some 1, Some (1 / 2), Some 1),
       volumes_mean = Some 200, volumes_std = Some 100,
       coord_mean = (Some 2, Some 1), coord_std = (Some 2, Some 1) \<rparr>"

text \<open>The two records of the example run, both assembled at timestamp 0.\<close>

definition example_record_6 :: processed_record where
  "example_record_6 =
     \<lparr> mesh_size = 2, sub_domain = 6,
       input = [Fin (- 1), Fin (- 1), Fin (- 1), Fin (- 1), Fin (- 1),
                Fin (- 1), Fin (- 1), Fin 0, Fin 1, Fin (- 1)] @
               replicate 95 (Fin 0) @
               [Fin (- (1 / 2)), Fin (- (1 / 2)), Fin (- (1 / 2)), Fin 0],
       labels = [0, 0, 0, 3, 0, 0] \<rparr>"

definition example_record_7 :: processed_record where
  "example_record_7 =
     \<lparr> mesh_size = 2, sub_domain = 7,
       input = [Fin (- 1), Fin (- 1), Fin (- 1), Fin (- 1), Fin (- 1)] @
               replicate 100 (Fin 0) @ [Fin (1 / 2), Fin 0],
       labels = [0, 0, 0] \<rparr>"

text \<open>
  The states of the example run when the loop reaches the timestamps 3600 and 7200: the
  two records are in the buffer, and the update of timestamp 3600 sets \<open>NO2\<close> to 4.
\<close>

definition example_state_3600 :: loop_state where
  "example_state_3600 =
     \<lparr> date_current = 3600,
       current_background_pollution = [''NO2'' \<mapsto> 2, ''PM10'' \<mapsto> 3, ''PM25'' \<mapsto> 1],
       collection_of_pre_processed_entries = [example_record_6, example_record_7],
       collection_pre = [] \<rparr>"

definition example_state_7200 :: loop_state where
  "example_state_7200 =
     \<lparr> date_current = 7200,
       current_background_pollution = [''NO2'' \<mapsto> 4, ''PM10'' \<mapsto> 3, ''PM25'' \<mapsto> 1],
       collection_of_pre_processed_entries = [example_record_6, example_record_7],
       collection_pre = [] \<rparr>"

text \<open>The example with a bounding box of a single point: both coordinate deviations are 0.\<close>

definition degenerate_arguments :: arguments where
  "degenerate_arguments =
     example_arguments\<lparr>utilities :=
       \<lparr> bounding_box = [(''p'', (0, 0))],
         links_in_area = [(2, 1) \<mapsto> ((0, 0), (2, 2))] \<rparr>\<rparr>"

definition degenerate_record_6 :: processed_record where
  "degenerate_record_6 =
     \<lparr> mesh_size = 2, sub_domain = 6,
       input = [Fin (- 1), Fin (- 1), Fin (- 1), Fin (- 1), Fin (- 1),
                NaN, NaN, PosInf, PosInf, Fin (- 1)] @
               replicate 95 (Fin 0) @
               [PosInf, PosInf, PosInf, PosInf],
       labels = [0, 0, 0, 3, 0, 0] \<rparr>"

definition degenerate_record_7 :: processed_record where
  "degenerate_record_7 =
     \<lparr> mesh_size = 2, sub_domain = 7,
       input = [Fin (- 1), Fin (- 1), Fin (- 1), Fin (- 1), Fin (- 1)] @
               replicate 100 (Fin 0) @ [PosInf, PosInf],
       labels = [0, 0, 0] \<rparr>"

text \<open>The statistics of that run.\<close>

definition degenerate_stats :: stats where
  "degenerate_stats = example_stats\<lparr>coord_mean := (Some 0, Some 0), coord_std := (Some 0, Some 0)\<rparr>"

text \<open>
  The example with no volume for the link of sub-domain 6 at timestamp 0: the series of
  that timestamp holds another link. The volumes of the run are the same, so the
  statistics are those of the example.
\<close>

definition absent_volume_arguments :: arguments where
  "absent_volume_arguments =
     example_arguments\<lparr>traffic_volumes := [(0, [((3, 4), 100)]), (3600, [((1, 2), 300)])]\<rparr>"

definition absent_volume_record_6 :: processed_record where
  "absent_volume_record_6 =
     \<lparr> mesh_size = 2, sub_domain = 6,
       input = [Fin (- 1), Fin (- 1), Fin (- 1), Fin (- 1), Fin (- 1),
                Fin (- 1), Fin (- 1), Fin 0, Fin 1, Fin 0] @
               replicate 95 (Fin 0) @
               [Fin (- (1 / 2)), Fin (- (1 / 2)), Fin (- (1 / 2)), Fin 0],
       labels = [0, 0, 0, 3, 0, 0] \<rparr>"

text \<open>
  A run of one timestamp over 100,001 sub-domains that have neither links nor
  receptors: it assembles 100,001 records.
\<close>

definition many_cells_arguments :: arguments where
  "many_cells_arguments =
     \<lparr> date_start = 0,
       date_end = 1800,
       mesh = map (\<lambda>i. (int i, \<lparr> coord = [], links = [] \<rparr>)) [0..<100001],
       weather_data = [(0, (10, 2, 1 / 2, 15)), (3600, (12, 4, 3 / 2, 17))],
       background_pollution = Map.empty,
       traffic_volumes = [(0, [])],
       utilities = \<lparr> bounding_box = [(''sw'', (0, 0)), (''ne'', (4, 2))],
                     links_in_area = Map.empty \<rparr>,
       caline_estimates = [0 \<mapsto> Map.empty],
       receptor_list = [] \<rparr>"

definition many_cells_stats :: stats where
  "many_cells_stats =
     \<lparr> time_mean = Some 900, time_std = Some 900,
       weather_mean = (Some 11, Some 3, Some 1, Some 16),
       weather_std = (Some 1, Some 1, Some (1 / 2), Some 1),
       volumes_mean = None, volumes_std = None,
       coord_mean = (Some 2, Some 1), coord_std = (Some 2, Some 1) \<rparr>"

definition many_cells_record :: "nat \<Rightarrow> processed_record" where
  "many_cells_record i =
     \<lparr> mesh_size = 100001, sub_domain = int i,
       input = [Fin (- 1), Fin (- 1), Fin (- 1), Fin (- 1), Fin (- 1)] @ replicate 100 (Fin 0),
       labels = [] \<rparr>"

section \<open>Properties of the statistics\<close>

lemma np_mean_two: "np_mean [x, y] = Some ((x + y) / 2)"
  by (simp add: np_mean_def)

lemma np_std_one: "np_std [x] = Some 0"
  by (simp add: np_std_def np_mean_def)

lemma np_std_two: "np_std [x, y] = Some (\<bar>x - y\<bar> / 2)"
proof -
  have a: "\<bar>x - (x + y) / 2\<bar> ^ 2 = ((x - y) / 2) ^ 2"
    by (simp add: power2_eq_square field_simps)
  have b: "\<bar>y - (x + y) / 2\<bar> ^ 2 = ((x - y) / 2) ^ 2"
    by (simp add: power2_eq_square field_simps)
  have "sqrt ((\<bar>x - (x + y) / 2\<bar> ^ 2 + \<bar>y - (x + y) / 2\<bar> ^ 2) / 2) = sqrt (((x - y) / 2) ^ 2)"
    unfolding a b by simp
  also have "\<dots> = \<bar>x - y\<bar> / 2"
    by (simp add: real_sqrt_divide flip: power_divide)
  finally show ?thesis
    by (simp add: np_std_def np_mean_def)
qed

lemma example_compute_stats:
  "compute_stats (date_start example_arguments) (date_end example_arguments)
     (weather_data example_arguments) (traffic_volumes example_arguments)
     (utilities example_arguments) = Inr example_stats"
  by (simp add: compute_stats_def example_arguments_def example_stats_def weather_statistic_def
      coord_statistic_def volumes_of_def time_interval_def np_mean_two np_std_two Let_def)

lemma example_receptor_coords:
  "receptor_coords example_externals example_arguments =
     (\<lambda>i. if i = 7 then [(3, 1)] else if i = 6 then [(1, 1 / 2), (1, 1)] else [])"
  by (auto simp add: receptor_coords_def example_arguments_def example_externals_def
      example_cell_6_def example_cell_7_def in_rectangle_def fun_eq_iff)

section \<open>Properties of the assembler\<close>

lemma normalize_coords_length: "length (normalize_coords st c) = 2"
  by (simp add: normalize_coords_def split: prod.splits)

lemma normalize_weather_length: "length (normalize_weather st w) = 4"
  by (simp add: normalize_weather_def split: prod.splits)

lemma pollutant_loop_length:
  "pollutant_loop estimates bg c polls = Inr vs \<Longrightarrow> length vs = length polls"
  by (induction polls arbitrary: vs) (auto split: sum.splits simp: Let_def)

lemma pollutant_loop_nth:
  "pollutant_loop estimates bg c polls = Inr vs \<Longrightarrow> j < length polls \<Longrightarrow>
   \<exists>v. raw_value estimates bg c (polls ! j) = Inr v \<and> vs ! j = (if v < - 1 then 0 else v)"
proof (induction polls arbitrary: vs j)
  case Nil
  then show ?case by simp
next
  case (Cons p polls)
  from Cons.prems(1) obtain v0 vs' where
    v0: "raw_value estimates bg c p = Inr v0" and
    rest: "pollutant_loop estimates bg c polls = Inr vs'" and
    vs: "vs = (if v0 < - 1 then 0 else v0) # vs'"
    by (auto split: sum.splits simp: Let_def)
  show ?case
  proof (cases j)
    case 0
    with v0 vs show ?thesis by simp
  next
    case (Suc k)
    with Cons.prems(2) have "k < length polls" by simp
    from Cons.IH [OF rest this] Suc vs show ?thesis by simp
  qed
qed

lemma receptor_loop_lengths:
  "receptor_loop st polls estimates bg cs = Inr (rs, es) \<Longrightarrow>
   length rs = 2 * length cs \<and> length es = length cs * length polls"
proof (induction cs arbitrary: rs es)
  case Nil
  then show ?case by simp
next
  case (Cons c cs)
  then show ?case
    by (auto split: sum.splits prod.splits simp: normalize_coords_length pollutant_loop_length)
qed

lemma receptor_loop_nth:
  "receptor_loop st polls estimates bg cs = Inr (rs, es) \<Longrightarrow> i < length cs \<Longrightarrow>
   j < length polls \<Longrightarrow>
   \<exists>v. raw_value estimates bg (cs ! i) (polls ! j) = Inr v \<and>
       es ! (i * length polls + j) = (if v < - 1 then 0 else v)"
proof (induction cs arbitrary: rs es i)
  case Nil
  then show ?case by simp
next
  case (Cons c cs)
  from Cons.prems(1) obtain vs rs' es' where
    vs: "pollutant_loop estimates bg c polls = Inr vs" and
    rest: "receptor_loop st polls estimates bg cs = Inr (rs', es')" and
    es: "es = vs @ es'"
    by (auto split: sum.splits prod.splits)
  have len: "length vs = length polls" using vs by (rule pollutant_loop_length)
  show ?case
  proof (cases i)
    case 0
    with pollutant_loop_nth [OF vs Cons.prems(3)] es len Cons.prems(3) show ?thesis
      by (simp add: nth_append)
  next
    case (Suc k)
    with Cons.prems(2) have k: "k < length cs" by simp
    from Cons.IH [OF rest k Cons.prems(3)] Suc es len show ?thesis
      by (simp add: nth_append)
  qed
qed

lemma links_loop_length: "links_loop lia ls = Inr keyed \<Longrightarrow> length keyed = length ls"
  by (induction ls arbitrary: keyed) (auto split: option.splits sum.splits)

lemma links_loop_nth:
  "links_loop lia ls = Inr keyed \<Longrightarrow> i < length ls \<Longrightarrow>
   \<exists>g. lia (ls ! i) = Some g \<and> keyed ! i = (sorted_link (ls ! i), g)"
proof (induction ls arbitrary: keyed i)
  case Nil
  then show ?case by simp
next
  case (Cons l ls)
  from Cons.prems(1) obtain g rest where
    g: "lia l = Some g" and rest: "links_loop lia ls = Inr rest" and
    keyed: "keyed = (sorted_link l, g) # rest"
    by (auto split: option.splits sum.splits)
  show ?case
  proof (cases i)
    case 0
    with g keyed show ?thesis by (intro exI [of _ g]) simp
  next
    case (Suc k)
    with Cons.prems(2) have "k < length ls" by simp
    from Cons.IH [OF rest this] obtain g' where
      "lia (ls ! k) = Some g'" and "rest ! k = (sorted_link (ls ! k), g')"
      by blast
    with Suc keyed show ?thesis by (intro exI [of _ g']) simp
  qed
qed

lemma volume_loop_length: "length (volume_loop st series keyed) = 5 * length keyed"
  by (induction st series keyed rule: volume_loop.induct)
     (auto simp: normalize_coords_length split: option.splits)

lemma volume_loop_entry:
  "i < length keyed \<Longrightarrow>
   take 5 (drop (5 * i) (volume_loop st series keyed)) =
     normalize_coords st (fst (snd (keyed ! i))) @
     normalize_coords st (snd (snd (keyed ! i))) @
     [case map_of series (fst (keyed ! i)) of
        Some volume \<Rightarrow> normalize_traffic st volume
      | None \<Rightarrow> Fin 0]"
proof (induction st series keyed arbitrary: i rule: volume_loop.induct)
  case (1 st series)
  then show ?case by simp
next
  case (2 st series l links_coords rest)
  define slot where "slot = (case map_of series l of
        Some volume \<Rightarrow> normalize_traffic st volume | None \<Rightarrow> Fin 0)"
  define entry where "entry = normalize_coords st (fst links_coords) @
     normalize_coords st (snd links_coords) @ [slot]"
  have len: "length entry = 5"
    by (simp add: entry_def normalize_coords_length)
  have unfold: "volume_loop st series ((l, links_coords) # rest) = entry @ volume_loop st series rest"
    by (simp add: entry_def slot_def split: option.splits)
  show ?case
  proof (cases i)
    case 0
    then show ?thesis
      unfolding unfold using len by (simp add: entry_def slot_def)
  next
    case (Suc k)
    with "2.prems" have k: "k < length rest" by simp
    have "drop (5 * i) (entry @ volume_loop st series rest) = drop (5 * k) (volume_loop st series rest)"
      using len Suc by simp
    with "2.IH" [OF k] Suc show ?thesis
      unfolding unfold by simp
  qed
qed

lemma current_traffic_volume_block:
  assumes "current_traffic_volume st lia series ls = Inr blk"
  shows "length blk = max 20 (length ls) * 5"
    and "drop (5 * length ls) blk = replicate ((20 - length ls) * 5) (Fin 0)"
    and "i < length ls \<Longrightarrow>
         \<exists>c0 c1. lia (ls ! i) = Some (c0, c1) \<and>
           take 5 (drop (5 * i) blk) =
             normalize_coords st c0 @ normalize_coords st c1 @
             [case map_of series (sorted_link (ls ! i)) of
                Some volume \<Rightarrow> normalize_traffic st volume
              | None \<Rightarrow> Fin 0]"
proof -
  from assms obtain keyed where
    keyed: "links_loop lia ls = Inr keyed" and
    blk: "blk = volume_loop st series keyed @
                replicate (nat ((20 - int (length keyed)) * 5)) (Fin 0)"
    by (auto simp: current_traffic_volume_def split: sum.splits)
  have len: "length keyed = length ls" using keyed by (rule links_loop_length)
  have pad: "nat ((20 - int (length ls)) * 5) = (20 - length ls) * 5"
    by (simp add: nat_mult_distrib)
  show "length blk = max 20 (length ls) * 5"
    unfolding blk by (simp add: volume_loop_length len pad)
  show "drop (5 * length ls) blk = replicate ((20 - length ls) * 5) (Fin 0)"
    unfolding blk by (simp add: volume_loop_length len pad)
  show "\<exists>c0 c1. lia (ls ! i) = Some (c0, c1) \<and>
           take 5 (drop (5 * i) blk) =
             normalize_coords st c0 @ normalize_coords st c1 @
             [case map_of series (sorted_link (ls ! i)) of
                Some volume \<Rightarrow> normalize_traffic st volume
              | None \<Rightarrow> Fin 0]" if i: "i < length ls"
  proof -
    from links_loop_nth [OF keyed i] obtain g where
      g: "lia (ls ! i) = Some g" and ki: "keyed ! i = (sorted_link (ls ! i), g)"
      by blast
    have i': "i < length keyed" using i len by simp
    have "5 * i + 5 \<le> length (volume_loop st series keyed)"
      using i' by (simp add: volume_loop_length)
    then have "take 5 (drop (5 * i) blk) = take 5 (drop (5 * i) (volume_loop st series keyed))"
      unfolding blk by simp
    also note volume_loop_entry [OF i', of st series]
    finally show ?thesis
      using g ki by (cases g) simp
  qed
qed

section \<open>Labels (C3)\<close>

lemmas example_defs =
  example_arguments_def example_externals_def example_stats_def example_cell_6_def
  example_cell_7_def example_estimates_def example_record_6_def example_record_7_def

lemmas assemble_eval =
  assemble_def current_traffic_volume_def sorted_link_def normalize_time_def
  normalize_weather_def normalize_coords_def normalize_traffic_def normalize_value_def raw_value_def
  Let_def

lemma example_assemble_6:
  "assemble example_externals example_arguments example_stats
     (receptor_coords example_externals example_arguments)
     (get_empirical_background_pollution example_externals)
     0 (10, 2, 1 / 2, 15) [((1, 2), 100)] example_estimates 6 example_cell_6
   = Inr example_record_6"
  unfolding example_receptor_coords
  by (simp add: example_defs assemble_eval)

lemma assemble_shape:
  assumes "assemble ext a st rc bg t w series estimates sid cell = Inr data"
  shows "\<exists>blk recs. current_traffic_volume st (links_in_area (utilities a)) series (links cell) = Inr blk \<and>
           receptor_loop st (Pollutant ext) estimates bg (rc sid) = Inr (recs, labels data) \<and>
           input data = normalize_time st t # normalize_weather st w @ blk @ recs \<and>
           sub_domain data = sid \<and> mesh_size data = length (mesh a)"
  using assms unfolding assemble_def
  by (auto split: sum.splits prod.splits)

text \<open>
  C3. Every label of an assembled record is the raw value of its receptor and pollutant
  (the caline estimate minus the current background, or 0 when the receptor or the
  pollutant is absent from the estimate) when that value is at least -1, and 0
  otherwise. The labels are laid out receptor by receptor, one per pollutant.
\<close>

theorem label_clamping:
  assumes "assemble ext a st rc bg t w series estimates sid cell = Inr data"
    and "i < length (rc sid)" and "j < length (Pollutant ext)"
  shows "length (labels data) = length (rc sid) * length (Pollutant ext) \<and>
         (\<exists>v. raw_value estimates bg (rc sid ! i) (Pollutant ext ! j) = Inr v \<and>
              labels data ! (i * length (Pollutant ext) + j) = (if - 1 \<le> v then v else 0))"
proof -
  from assemble_shape [OF assms(1)] obtain recs where
    loop: "receptor_loop st (Pollutant ext) estimates bg (rc sid) = Inr (recs, labels data)"
    by blast
  from receptor_loop_nth [OF loop assms(2) assms(3)] obtain v where
    "raw_value estimates bg (rc sid ! i) (Pollutant ext ! j) = Inr v" and
    "labels data ! (i * length (Pollutant ext) + j) = (if v < - 1 then 0 else v)"
    by blast
  moreover have "(if v < - 1 then 0 else v) = (if - 1 \<le> v then v else 0)"
    by simp
  ultimately show ?thesis
    using receptor_loop_lengths [OF loop] by auto
qed

theorem label_clamping_witness:
  "assemble example_externals example_arguments example_stats
     (receptor_coords example_externals example_arguments)
     (get_empirical_background_pollution example_externals)
     0 (10, 2, 1 / 2, 15) [((1, 2), 100)] example_estimates 6 example_cell_6
   = Inr example_record_6 \<and>
   raw_value example_estimates (get_empirical_background_pollution example_externals)
     (1, 1) ''PM10'' = Inr (- 3) \<and>
   labels example_record_6 ! 4 = 0 \<and>
   raw_value example_estimates (get_empirical_background_pollution example_externals)
     (1, 1) ''NO2'' = Inr 3 \<and>
   labels example_record_6 ! 3 = 3"
proof -
  let ?rc = "receptor_coords example_externals example_arguments"
  have i: "1 < length (?rc 6)"
    by (simp add: example_receptor_coords)
  have j1: "1 < length (Pollutant example_externals)" and j0: "0 < length (Pollutant example_externals)"
    by (simp_all add: example_externals_def)
  have pm10: "raw_value example_estimates (get_empirical_background_pollution example_externals)
     (1, 1) ''PM10'' = Inr (- 3)"
    by (simp add: raw_value_def example_defs)
  have no2: "raw_value example_estimates (get_empirical_background_pollution example_externals)
     (1, 1) ''NO2'' = Inr 3"
    by (simp add: raw_value_def example_defs)
  from label_clamping [OF example_assemble_6 i j1, unfolded example_receptor_coords] pm10
  have "labels example_record_6 ! 4 = 0"
    by (simp add: example_externals_def eval_nat_numeral)
  moreover from label_clamping [OF example_assemble_6 i j0, unfolded example_receptor_coords] no2
  have "labels example_record_6 ! 3 = 3"
    by (simp add: example_externals_def eval_nat_numeral)
  ultimately show ?thesis
    using example_assemble_6 pm10 no2 by simp
qed

section \<open>Link block (C5, C10)\<close>

text \<open>
  C5, as the code has it. The input of an assembled record is the normalized timestamp,
  the four normalized weather values, the link block and the receptor coordinates. For a
  sub-domain with \<open>k \<le> 20\<close> links the link block has exactly \<open>20 * 5 = 100\<close> scalars:
  link \<open>i\<close> fills the five scalars from \<open>5 * i\<close> on with its normalized start
  coordinate, its normalized end coordinate and its volume slot, which is the normalized
  volume when the canonical key has a volume at the timestamp and the constant 0 of
  line 204 when it has none; the last \<open>(20 - k) * 5\<close> scalars are zeros.
\<close>

theorem link_block_padding:
  assumes "assemble ext a st rc bg t w series estimates sid cell = Inr data"
    and "length (links cell) \<le> 20"
  shows "\<exists>blk recs.
           input data = normalize_time st t # normalize_weather st w @ blk @ recs \<and>
           length recs = 2 * length (rc sid) \<and>
           length blk = 20 * 5 \<and>
           (\<forall>i<length (links cell).
              \<exists>c0 c1. links_in_area (utilities a) (links cell ! i) = Some (c0, c1) \<and>
                take 5 (drop (5 * i) blk) =
                  normalize_coords st c0 @ normalize_coords st c1 @
                  [case map_of series (sorted_link (links cell ! i)) of
                     Some volume \<Rightarrow> normalize_traffic st volume
                   | None \<Rightarrow> Fin 0]) \<and>
           drop (5 * length (links cell)) blk =
             replicate ((20 - length (links cell)) * 5) (Fin 0)"
proof -
  from assemble_shape [OF assms(1)] obtain blk recs where
    blk: "current_traffic_volume st (links_in_area (utilities a)) series (links cell) = Inr blk" and
    loop: "receptor_loop st (Pollutant ext) estimates bg (rc sid) = Inr (recs, labels data)" and
    inp: "input data = normalize_time st t # normalize_weather st w @ blk @ recs"
    by blast
  have "length blk = 20 * 5"
    using current_traffic_volume_block(1) [OF blk] assms(2) by simp
  moreover have "length recs = 2 * length (rc sid)"
    using receptor_loop_lengths [OF loop] by simp
  moreover note current_traffic_volume_block(2) [OF blk]
  moreover have "\<forall>i<length (links cell).
              \<exists>c0 c1. links_in_area (utilities a) (links cell ! i) = Some (c0, c1) \<and>
                take 5 (drop (5 * i) blk) =
                  normalize_coords st c0 @ normalize_coords st c1 @
                  [case map_of series (sorted_link (links cell ! i)) of
                     Some volume \<Rightarrow> normalize_traffic st volume
                   | None \<Rightarrow> Fin 0]"
    using current_traffic_volume_block(3) [OF blk] by blast
  ultimately show ?thesis
    using inp by blast
qed

theorem link_block_padding_witness:
  "length (links example_cell_6) \<le> 20 \<and>
   assemble example_externals example_arguments example_stats
     (receptor_coords example_externals example_arguments)
     (get_empirical_background_pollution example_externals)
     0 (10, 2, 1 / 2, 15) [((1, 2), 100)] example_estimates 6 example_cell_6
   = Inr example_record_6 \<and>
   length (input example_record_6) = 5 + 20 * 5 + 2 * 2 \<and>
   take 5 (drop 5 (input example_record_6)) = [Fin (- 1), Fin (- 1), Fin 0, Fin 1, Fin (- 1)] \<and>
   drop 10 (take 105 (input example_record_6)) = replicate 95 (Fin 0)"
proof -
  have k: "length (links example_cell_6) \<le> 20"
    by (simp add: example_cell_6_def)
  from link_block_padding [OF example_assemble_6 k, unfolded example_receptor_coords]
  obtain blk recs where
    inp: "input example_record_6 =
       normalize_time example_stats 0 # normalize_weather example_stats (10, 2, 1 / 2, 15) @ blk @ recs" and
    recs: "length recs = 2 * 2" and
    blk: "length blk = 20 * 5" and
    pad: "drop (5 * length (links example_cell_6)) blk =
       replicate ((20 - length (links example_cell_6)) * 5) (Fin 0)"
    by auto
  have len: "length (input example_record_6) = 5 + 20 * 5 + 2 * 2"
    unfolding inp using recs blk by (simp add: normalize_weather_length)
  have "drop 10 (take 105 (input example_record_6)) = drop 5 blk"
    unfolding inp using blk by (simp add: normalize_weather_length drop_take)
  also have "\<dots> = replicate 95 (Fin 0)"
    using pad by (simp add: example_cell_6_def)
  finally have zeros: "drop 10 (take 105 (input example_record_6)) = replicate 95 (Fin 0)" .
  have first: "take 5 (drop 5 (input example_record_6)) =
      [Fin (- 1), Fin (- 1), Fin 0, Fin 1, Fin (- 1)]"
    by (simp add: example_record_6_def)
  from k example_assemble_6 len first zeros show ?thesis
    by blast
qed

lemma absent_volume_run:
  "pre_process example_externals absent_volume_arguments =
     Inr [[absent_volume_record_6, example_record_7]]"
  unfolding pre_process_def
  by (simp add: time_loop.simps loop_body_def initial_state_def absent_volume_arguments_def
      receptor_coords_def in_rectangle_def example_defs time_step_def assemble_eval
      collect_entry_def compute_stats_def weather_statistic_def coord_statistic_def
      volumes_of_def time_interval_def np_mean_two np_std_two np_mean_def
      max_collection_size_def final_flush_def absent_volume_record_6_def)

theorem link_block_padding_counterexample:
  "length (links example_cell_6) \<le> 20 \<and>
   (6, example_cell_6) \<in> set (mesh absent_volume_arguments) \<and>
   map_of (traffic_volumes absent_volume_arguments) 0 = Some [((3, 4), 100)] \<and>
   map_of [((3, 4), 100 :: real)] (sorted_link (links example_cell_6 ! 0)) = None \<and>
   compute_stats (date_start absent_volume_arguments) (date_end absent_volume_arguments)
     (weather_data absent_volume_arguments) (traffic_volumes absent_volume_arguments)
     (utilities absent_volume_arguments) = Inr example_stats \<and>
   pre_process example_externals absent_volume_arguments =
     Inr [[absent_volume_record_6, example_record_7]] \<and>
   take 5 (drop 5 (input absent_volume_record_6)) =
     [Fin (- 1), Fin (- 1), Fin 0, Fin 1, Fin 0] \<and>
   normalize_traffic example_stats 0 = Fin (- 2) \<and>
   input absent_volume_record_6 ! 9 \<noteq> normalize_traffic example_stats 0"
proof -
  have "compute_stats (date_start absent_volume_arguments) (date_end absent_volume_arguments)
     (weather_data absent_volume_arguments) (traffic_volumes absent_volume_arguments)
     (utilities absent_volume_arguments) = Inr example_stats"
    by (simp add: compute_stats_def absent_volume_arguments_def example_arguments_def
        example_stats_def weather_statistic_def coord_statistic_def volumes_of_def
        time_interval_def np_mean_two np_std_two Let_def)
  moreover have "normalize_traffic example_stats 0 = Fin (- 2)"
    by (simp add: normalize_traffic_def normalize_value_def example_stats_def)
  moreover have "input absent_volume_record_6 ! 9 = Fin 0"
    by (simp add: absent_volume_record_6_def)
  moreover have "take 5 (drop 5 (input absent_volume_record_6)) =
     [Fin (- 1), Fin (- 1), Fin 0, Fin 1, Fin 0]"
    by (simp add: absent_volume_record_6_def)
  moreover have "length (links example_cell_6) \<le> 20"
    and "(6, example_cell_6) \<in> set (mesh absent_volume_arguments)"
    and "map_of (traffic_volumes absent_volume_arguments) 0 = Some [((3, 4), 100)]"
    and "map_of [((3, 4), 100 :: real)] (sorted_link (links example_cell_6 ! 0)) = None"
    by (simp_all add: absent_volume_arguments_def example_arguments_def example_cell_6_def
        sorted_link_def)
  ultimately show ?thesis
    using absent_volume_run by simp
qed

text \<open>
  C10. When the canonical (sorted-endpoint) key of a link has no volume at the current
  timestamp, the volume slot of the link is the constant 0; a recorded volume gives the
  standardized volume, so a recorded 0 gives \<open>(0 - mean) / std\<close>, which is not 0 whenever
  the traffic mean is not 0.
\<close>

theorem absent_volume_is_literal_zero:
  assumes "assemble ext a st rc bg t w series estimates sid cell = Inr data"
    and "i < length (links cell)"
  shows "(map_of series (sorted_link (links cell ! i)) = None \<longrightarrow>
            input data ! (5 + 5 * i + 4) = Fin 0) \<and>
         (\<forall>volume. map_of series (sorted_link (links cell ! i)) = Some volume \<longrightarrow>
            input data ! (5 + 5 * i + 4) = normalize_traffic st volume) \<and>
         normalize_traffic st 0 = normalize_value 0 (volumes_mean st) (volumes_std st) \<and>
         (\<forall>m. volumes_mean st = Some m \<longrightarrow> m \<noteq> 0 \<longrightarrow> normalize_traffic st 0 \<noteq> Fin 0)"
proof -
  from assemble_shape [OF assms(1)] obtain blk recs where
    blk: "current_traffic_volume st (links_in_area (utilities a)) series (links cell) = Inr blk" and
    inp: "input data = normalize_time st t # normalize_weather st w @ blk @ recs"
    by blast
  let ?slot = "case map_of series (sorted_link (links cell ! i)) of
                 Some volume \<Rightarrow> normalize_traffic st volume
               | None \<Rightarrow> Fin 0"
  from current_traffic_volume_block(3) [OF blk assms(2)] obtain c0 c1 where
    entry: "take 5 (drop (5 * i) blk) =
              normalize_coords st c0 @ normalize_coords st c1 @ [?slot]"
    by blast
  have len: "length blk = max 20 (length (links cell)) * 5"
    by (rule current_traffic_volume_block(1) [OF blk])
  have in_blk: "5 * i + 4 < length blk"
    using assms(2) len by simp
  have "input data ! (5 + 5 * i + 4) = blk ! (5 * i + 4)"
    unfolding inp using in_blk by (simp add: nth_append normalize_weather_length ac_simps)
  also have "\<dots> = take 5 (drop (5 * i) blk) ! 4"
    using in_blk by simp
  also have "\<dots> = ?slot"
    unfolding entry by (simp add: nth_append normalize_coords_length)
  finally have slot: "input data ! (5 + 5 * i + 4) = ?slot" .
  have nonzero: "normalize_traffic st 0 \<noteq> Fin 0" if "volumes_mean st = Some m" "m \<noteq> 0" for m
    using that by (simp add: normalize_traffic_def normalize_value_def split: option.splits)
  show ?thesis
    using slot nonzero by (auto simp: normalize_traffic_def)
qed

theorem absent_volume_is_literal_zero_witness:
  "assemble example_externals example_arguments example_stats
     (receptor_coords example_externals example_arguments)
     (get_empirical_background_pollution example_externals)
     0 (10, 2, 1 / 2, 15) [((3, 4), 100)] example_estimates 6 example_cell_6
   = Inr (example_record_6\<lparr>input := (input example_record_6)[9 := Fin 0]\<rparr>) \<and>
   map_of [((3, 4), 100 :: real)] (sorted_link (links example_cell_6 ! 0)) = None \<and>
   (input example_record_6)[9 := Fin 0] ! 9 = Fin 0 \<and>
   assemble example_externals example_arguments example_stats
     (receptor_coords example_externals example_arguments)
     (get_empirical_background_pollution example_externals)
     0 (10, 2, 1 / 2, 15) [((1, 2), 0)] example_estimates 6 example_cell_6
   = Inr (example_record_6\<lparr>input := (input example_record_6)[9 := Fin (- 2)]\<rparr>) \<and>
   map_of [((1, 2), 0 :: real)] (sorted_link (links example_cell_6 ! 0)) = Some 0 \<and>
   normalize_traffic example_stats 0 = Fin (- 2) \<and>
   normalize_traffic example_stats 0 \<noteq> Fin 0"
proof -
  let ?absent = "example_record_6\<lparr>input := (input example_record_6)[9 := Fin 0]\<rparr>"
  let ?zero = "example_record_6\<lparr>input := (input example_record_6)[9 := Fin (- 2)]\<rparr>"
  have absent: "assemble example_externals example_arguments example_stats
     (receptor_coords example_externals example_arguments)
     (get_empirical_background_pollution example_externals)
     0 (10, 2, 1 / 2, 15) [((3, 4), 100)] example_estimates 6 example_cell_6 = Inr ?absent"
    unfolding example_receptor_coords
    by (simp add: example_defs assemble_eval)
  have zero: "assemble example_externals example_arguments example_stats
     (receptor_coords example_externals example_arguments)
     (get_empirical_background_pollution example_externals)
     0 (10, 2, 1 / 2, 15) [((1, 2), 0)] example_estimates 6 example_cell_6 = Inr ?zero"
    unfolding example_receptor_coords
    by (simp add: example_defs assemble_eval)
  have i: "0 < length (links example_cell_6)"
    by (simp add: example_cell_6_def)
  have key: "sorted_link (links example_cell_6 ! 0) = (1, 2)"
    by (simp add: example_cell_6_def sorted_link_def)
  have mean: "volumes_mean example_stats = Some 200"
    by (simp add: example_stats_def)
  from absent_volume_is_literal_zero [OF absent i]
  have a: "(input example_record_6)[9 := Fin 0] ! 9 = Fin 0"
    unfolding key by simp
  from absent_volume_is_literal_zero [OF zero i]
  have "\<forall>m. volumes_mean example_stats = Some m \<longrightarrow> m \<noteq> 0 \<longrightarrow>
          normalize_traffic example_stats 0 \<noteq> Fin 0"
    by blast
  with mean have b: "normalize_traffic example_stats 0 \<noteq> Fin 0"
    by simp
  have c: "normalize_traffic example_stats 0 = Fin (- 2)"
    by (simp add: normalize_traffic_def normalize_value_def example_stats_def)
  from absent zero a b c show ?thesis
    unfolding key by simp
qed

section \<open>Properties of the loop\<close>

lemma example_run:
  "pre_process example_externals example_arguments = Inr [[example_record_6, example_record_7]]"
  unfolding pre_process_def example_compute_stats example_receptor_coords
  by (simp add: time_loop.simps loop_body_def initial_state_def
      example_defs time_step_def assemble_eval collect_entry_def
      max_collection_size_def final_flush_def)

lemma collect_entry_background:
  "current_background_pollution (collect_entry s data) = current_background_pollution s"
  by (simp add: collect_entry_def Let_def)

lemma sub_domain_loop_background:
  "sub_domain_loop ext a st rc t w series cells s = Inr s' \<Longrightarrow>
   current_background_pollution s' = current_background_pollution s"
proof (induction cells arbitrary: s)
  case Nil
  then show ?case by simp
next
  case (Cons c cells)
  obtain sub_domain_id cell where c: "c = (sub_domain_id, cell)" by (cases c)
  from Cons.prems Cons.IH show ?case
    unfolding c by (auto split: option.splits sum.splits simp: collect_entry_background)
qed

lemma sub_domain_loop_no_caline:
  "caline_estimates a t = None \<Longrightarrow> sub_domain_loop ext a st rc t w series cells s = Inr s"
proof (induction cells)
  case Nil
  then show ?case by simp
next
  case (Cons c cells)
  obtain sub_domain_id cell where c: "c = (sub_domain_id, cell)" by (cases c)
  from Cons show ?case unfolding c by simp
qed

lemma update_background_other:
  "pol \<notin> fst ` set update \<Longrightarrow> update_background bg update pol = bg pol"
  by (induction bg update rule: update_background.induct) auto

lemma update_background_present:
  "distinct (map fst update) \<Longrightarrow> (pol, v) \<in> set update \<Longrightarrow>
   update_background bg update pol = Some v"
proof (induction bg update rule: update_background.induct)
  case (1 bg)
  then show ?case by simp
next
  case (2 bg p x rest)
  show ?case
  proof (cases "(pol, v) = (p, x)")
    case True
    with "2.prems"(1) have "pol \<notin> fst ` set rest" by auto
    then have "update_background (bg(p \<mapsto> x)) rest pol = (bg(p \<mapsto> x)) pol"
      by (rule update_background_other)
    with True show ?thesis by simp
  next
    case False
    with "2.prems" have m: "(pol, v) \<in> set rest" and d: "distinct (map fst rest)" by auto
    from "2.IH" [OF d m] show ?thesis by (simp add: fun_upd_def)
  qed
qed

text \<open>The effect of one iteration on the running background mapping.\<close>

lemma loop_body_skip:
  "map_of (weather_data a) (date_current s) = None \<or>
   map_of (traffic_volumes a) (date_current s) = None \<Longrightarrow>
   loop_body ext a st rc s = Inr (s\<lparr>date_current := date_current s + 3600\<rparr>)"
  by (auto simp: loop_body_def time_step_def Let_def split: option.splits)

lemma loop_body_present:
  assumes "loop_body ext a st rc s = Inr s'"
    and "map_of (weather_data a) (date_current s) = Some w"
    and "map_of (traffic_volumes a) (date_current s) = Some series"
  shows "current_background_pollution s' =
           (case background_pollution a (date_current s) of
              None \<Rightarrow> current_background_pollution s
            | Some update \<Rightarrow> update_background (current_background_pollution s) update)"
    and "sub_domain_loop ext a st rc (date_current s) w series (mesh a)
           (s\<lparr>current_background_pollution := current_background_pollution s'\<rparr>) =
         Inr (s'\<lparr>date_current := date_current s\<rparr>)"
proof -
  define s1 where "s1 = (case background_pollution a (date_current s) of
       None \<Rightarrow> s
     | Some update \<Rightarrow> s\<lparr>current_background_pollution :=
                          update_background (current_background_pollution s) update\<rparr>)"
  from assms obtain s2 where
    s2: "sub_domain_loop ext a st rc (date_current s) w series (mesh a) s1 = Inr s2" and
    s': "s' = s2\<lparr>date_current := date_current s2 + time_step\<rparr>"
    by (auto simp: loop_body_def s1_def Let_def split: sum.splits)
  have bg1: "current_background_pollution s1 =
           (case background_pollution a (date_current s) of
              None \<Rightarrow> current_background_pollution s
            | Some update \<Rightarrow> update_background (current_background_pollution s) update)"
    by (simp add: s1_def split: option.splits)
  have bg2: "current_background_pollution s2 = current_background_pollution s1"
    using s2 by (rule sub_domain_loop_background)
  show bg: "current_background_pollution s' =
           (case background_pollution a (date_current s) of
              None \<Rightarrow> current_background_pollution s
            | Some update \<Rightarrow> update_background (current_background_pollution s) update)"
    using bg1 bg2 s' by simp
  have d1: "date_current s1 = date_current s"
    by (simp add: s1_def split: option.splits)
  have d2: "date_current s2 = date_current s"
    using sub_domain_loop_date [OF s2] d1 by simp
  have "s\<lparr>current_background_pollution := current_background_pollution s'\<rparr> = s1"
    unfolding bg by (simp add: s1_def split: option.splits)
  moreover have "s'\<lparr>date_current := date_current s\<rparr> = s2"
    using s' d2 by simp
  ultimately show "sub_domain_loop ext a st rc (date_current s) w series (mesh a)
           (s\<lparr>current_background_pollution := current_background_pollution s'\<rparr>) =
         Inr (s'\<lparr>date_current := date_current s\<rparr>)"
    using s2 by simp
qed

lemma loop_body_no_update:
  assumes "loop_body ext a st rc s = Inr s'"
    and "background_pollution a (date_current s) = None \<or>
         map_of (weather_data a) (date_current s) = None \<or>
         map_of (traffic_volumes a) (date_current s) = None"
  shows "current_background_pollution s' = current_background_pollution s"
proof (cases "map_of (weather_data a) (date_current s) = None \<or>
    map_of (traffic_volumes a) (date_current s) = None")
  case True
  from loop_body_skip [OF this, of ext st rc] assms(1) show ?thesis by auto
next
  case False
  then obtain w series where
    "map_of (weather_data a) (date_current s) = Some w"
    "map_of (traffic_volumes a) (date_current s) = Some series"
    by auto
  from loop_body_present(1) [OF assms(1) this] assms(2) False show ?thesis
    by simp
qed

lemma iterations_no_update:
  "iterations ext a st rc n s = Inr s' \<Longrightarrow>
   (\<forall>k<n. background_pollution a (date_current s + 3600 * int k) = None \<or>
          map_of (weather_data a) (date_current s + 3600 * int k) = None \<or>
          map_of (traffic_volumes a) (date_current s + 3600 * int k) = None) \<Longrightarrow>
   current_background_pollution s' = current_background_pollution s"
proof (induction n arbitrary: s)
  case 0
  then show ?case by simp
next
  case (Suc n)
  from Suc.prems(1) obtain s1 where
    body: "loop_body ext a st rc s = Inr s1" and rest: "iterations ext a st rc n s1 = Inr s'"
    by (auto split: sum.splits)
  have d: "date_current s1 = date_current s + 3600"
    using loop_body_date [OF body] by (simp add: time_step_def)
  from Suc.prems(2) have first: "background_pollution a (date_current s) = None \<or>
          map_of (weather_data a) (date_current s) = None \<or>
          map_of (traffic_volumes a) (date_current s) = None"
    by (auto dest: spec [of _ 0])
  have later: "\<forall>k<n. background_pollution a (date_current s1 + 3600 * int k) = None \<or>
          map_of (weather_data a) (date_current s1 + 3600 * int k) = None \<or>
          map_of (traffic_volumes a) (date_current s1 + 3600 * int k) = None"
  proof (intro allI impI)
    fix k assume "k < n"
    then have "Suc k < Suc n" by simp
    with Suc.prems(2) show "background_pollution a (date_current s1 + 3600 * int k) = None \<or>
          map_of (weather_data a) (date_current s1 + 3600 * int k) = None \<or>
          map_of (traffic_volumes a) (date_current s1 + 3600 * int k) = None"
      unfolding d by (auto dest!: spec [of _ "Suc k"] simp: algebra_simps)
  qed
  from Suc.IH [OF rest later] loop_body_no_update [OF body first] show ?case
    by simp
qed

text \<open>The \<open>while\<close> loop hands the state of one iteration to the next.\<close>

lemma time_loop_step:
  "date_current s \<le> date_end a \<Longrightarrow> loop_body ext a st rc s = Inr s' \<Longrightarrow>
   time_loop ext a st rc s = time_loop ext a st rc s'"
  by (subst time_loop.simps) simp

lemma time_loop_iterations:
  "time_loop ext a st rc s = Inr r \<Longrightarrow> \<exists>n. iterations ext a st rc n s = Inr r"
proof (induction ext a st rc s rule: time_loop.induct)
  case (1 ext a st rc s)
  show ?case
  proof (cases "date_current s \<le> date_end a")
    case False
    with "1.prems" have "r = s" by (subst (asm) time_loop.simps) simp
    then have "iterations ext a st rc 0 s = Inr r" by simp
    then show ?thesis ..
  next
    case True
    with "1.prems" obtain s' where
      body: "loop_body ext a st rc s = Inr s'" and rest: "time_loop ext a st rc s' = Inr r"
      by (subst (asm) time_loop.simps) (auto split: sum.splits)
    from "1.IH" [OF True body rest] obtain n where "iterations ext a st rc n s' = Inr r" ..
    with body have "iterations ext a st rc (Suc n) s = Inr r" by simp
    then show ?thesis ..
  qed
qed

section \<open>Skipped timestamps (C6, C7)\<close>

text \<open>
  C6. At a timestamp of the timeline that has no weather entry or no traffic-volume
  entry, the iteration returns the state it was given with only \<open>date_current\<close> moved on
  by one hour: nothing is appended to the buffer, nothing is inserted, the background
  mapping is not touched, and no error is raised; the loop goes on from the next hour.
\<close>

theorem missing_weather_or_traffic_skips:
  assumes "map_of (weather_data a) (date_current s) = None \<or>
           map_of (traffic_volumes a) (date_current s) = None"
  shows "loop_body ext a st rc s = Inr (s\<lparr>date_current := date_current s + 3600\<rparr>) \<and>
         (date_current s \<le> date_end a \<longrightarrow>
            time_loop ext a st rc s =
            time_loop ext a st rc (s\<lparr>date_current := date_current s + 3600\<rparr>))"
proof -
  have body: "loop_body ext a st rc s = Inr (s\<lparr>date_current := date_current s + 3600\<rparr>)"
    using assms by (rule loop_body_skip)
  then show ?thesis
    by (auto dest: time_loop_step)
qed

theorem missing_weather_or_traffic_skips_witness:
  "map_of (weather_data example_arguments) (date_current example_state_7200) = None \<and>
   date_current example_state_7200 \<le> date_end example_arguments \<and>
   loop_body example_externals example_arguments example_stats
     (receptor_coords example_externals example_arguments) example_state_7200 =
     Inr (example_state_7200\<lparr>date_current := 10800\<rparr>) \<and>
   time_loop example_externals example_arguments example_stats
     (receptor_coords example_externals example_arguments) example_state_7200 =
     Inr (example_state_7200\<lparr>date_current := 10800\<rparr>)"
proof -
  have absent: "map_of (weather_data example_arguments) (date_current example_state_7200) = None"
    by (simp add: example_arguments_def example_state_7200_def)
  have on_timeline: "date_current example_state_7200 \<le> date_end example_arguments"
    by (simp add: example_arguments_def example_state_7200_def)
  have next_hour: "date_current example_state_7200 + 3600 = 10800"
    by (simp add: example_state_7200_def)
  have stop: "time_loop example_externals example_arguments example_stats
     (receptor_coords example_externals example_arguments)
     (example_state_7200\<lparr>date_current := 10800\<rparr>) =
     Inr (example_state_7200\<lparr>date_current := 10800\<rparr>)"
    by (subst time_loop.simps) (simp add: example_arguments_def)
  from missing_weather_or_traffic_skips [OF disjI1, OF absent,
      of example_externals example_stats "receptor_coords example_externals example_arguments"]
    absent on_timeline stop
  show ?thesis
    unfolding next_hour by simp
qed

text \<open>
  C7. At a timestamp that has weather and traffic entries but no entry in the caline
  estimates, the loop over the sub-domains appends nothing, whatever the mesh is: the
  iteration leaves the buffer and the inserted batches as they were, raises no error and
  moves on by one hour. (The background update of the timestamp is still applied.)
\<close>

theorem missing_caline_skips_every_sub_domain:
  assumes "map_of (weather_data a) (date_current s) = Some w"
    and "map_of (traffic_volumes a) (date_current s) = Some series"
    and "caline_estimates a (date_current s) = None"
  shows "sub_domain_loop ext a st rc (date_current s) w series cells s = Inr s \<and>
         (\<exists>s'. loop_body ext a st rc s = Inr s' \<and>
               collection_of_pre_processed_entries s' = collection_of_pre_processed_entries s \<and>
               collection_pre s' = collection_pre s \<and>
               date_current s' = date_current s + 3600)"
proof -
  have none: "sub_domain_loop ext a st rc (date_current s) w series cells s1 = Inr s1"
    for cells s1
    using assms(3) by (rule sub_domain_loop_no_caline)
  show ?thesis
    using assms(1,2) none
    by (auto simp: loop_body_def Let_def time_step_def split: option.splits)
qed

theorem missing_caline_skips_every_sub_domain_witness:
  "map_of (weather_data example_arguments) (date_current example_state_3600) =
     Some (12, 4, 3 / 2, 17) \<and>
   map_of (traffic_volumes example_arguments) (date_current example_state_3600) =
     Some [((1, 2), 300)] \<and>
   caline_estimates example_arguments (date_current example_state_3600) = None \<and>
   sub_domain_loop example_externals example_arguments example_stats
     (receptor_coords example_externals example_arguments) (date_current example_state_3600)
     (12, 4, 3 / 2, 17) [((1, 2), 300)] (mesh example_arguments) example_state_3600 =
     Inr example_state_3600 \<and>
   loop_body example_externals example_arguments example_stats
     (receptor_coords example_externals example_arguments) example_state_3600 =
     Inr example_state_7200"
proof -
  have w: "map_of (weather_data example_arguments) (date_current example_state_3600) =
     Some (12, 4, 3 / 2, 17)"
    by (simp add: example_arguments_def example_state_3600_def)
  have series: "map_of (traffic_volumes example_arguments) (date_current example_state_3600) =
     Some [((1, 2), 300)]"
    by (simp add: example_arguments_def example_state_3600_def)
  have caline: "caline_estimates example_arguments (date_current example_state_3600) = None"
    by (simp add: example_arguments_def example_state_3600_def)
  note skip = missing_caline_skips_every_sub_domain [OF w series caline,
      of example_externals example_stats "receptor_coords example_externals example_arguments"]
  have loop: "sub_domain_loop example_externals example_arguments example_stats
     (receptor_coords example_externals example_arguments) (date_current example_state_3600)
     (12, 4, 3 / 2, 17) [((1, 2), 300)] (mesh example_arguments) example_state_3600 =
     Inr example_state_3600"
    using skip [of "mesh example_arguments"] by simp
  have body: "loop_body example_externals example_arguments example_stats
     (receptor_coords example_externals example_arguments) example_state_3600 =
     Inr example_state_7200"
    using w series loop
    by (simp add: loop_body_def Let_def time_step_def)
       (simp add: example_arguments_def example_state_3600_def example_state_7200_def
          sub_domain_loop_no_caline time_step_def fun_eq_iff)
  from w series caline loop body show ?thesis
    by simp
qed

section \<open>Background carry-forward (C4)\<close>

text \<open>
  C4, as the code has it. Let \<open>s1\<close> be the state after the iteration at the timestamp of
  \<open>s\<close>; its background mapping is the one the assembler used at that timestamp.
  \<^item> If the timestamp has weather and traffic entries and a background update, the
    pollutants of the update are overwritten with its values and every other pollutant
    keeps its carried value.
  \<^item> If the timestamp has no background update, or has no weather or no traffic entry
    (the update of such a timestamp is not applied), the mapping is left untouched.
  \<^item> The loop hands the state to the next iteration, and over any number of further
    timestamps none of which applies an update the mapping stays the same.
\<close>

theorem background_carry_forward:
  assumes "loop_body ext a st rc s = Inr s1"
    and "iterations ext a st rc n s1 = Inr s2"
  shows "(\<forall>w series update.
            map_of (weather_data a) (date_current s) = Some w \<longrightarrow>
            map_of (traffic_volumes a) (date_current s) = Some series \<longrightarrow>
            background_pollution a (date_current s) = Some update \<longrightarrow>
              (\<forall>pol. pol \<notin> fst ` set update \<longrightarrow>
                 current_background_pollution s1 pol = current_background_pollution s pol) \<and>
              (distinct (map fst update) \<longrightarrow>
                 (\<forall>pol v. (pol, v) \<in> set update \<longrightarrow>
                    current_background_pollution s1 pol = Some v)) \<and>
              sub_domain_loop ext a st rc (date_current s) w series (mesh a)
                (s\<lparr>current_background_pollution := current_background_pollution s1\<rparr>) =
              Inr (s1\<lparr>date_current := date_current s\<rparr>)) \<and>
         (background_pollution a (date_current s) = None \<or>
          map_of (weather_data a) (date_current s) = None \<or>
          map_of (traffic_volumes a) (date_current s) = None \<longrightarrow>
            current_background_pollution s1 = current_background_pollution s) \<and>
         (date_current s \<le> date_end a \<longrightarrow>
            time_loop ext a st rc s = time_loop ext a st rc s1) \<and>
         ((\<forall>k<n. background_pollution a (date_current s1 + 3600 * int k) = None \<or>
                 map_of (weather_data a) (date_current s1 + 3600 * int k) = None \<or>
                 map_of (traffic_volumes a) (date_current s1 + 3600 * int k) = None) \<longrightarrow>
            current_background_pollution s2 = current_background_pollution s1)"
proof (intro conjI allI impI)
  fix w series update pol
  assume w: "map_of (weather_data a) (date_current s) = Some w"
    and series: "map_of (traffic_volumes a) (date_current s) = Some series"
    and update: "background_pollution a (date_current s) = Some update"
  have bg: "current_background_pollution s1 =
      update_background (current_background_pollution s) update"
    using loop_body_present(1) [OF assms(1) w series] update by simp
  show "current_background_pollution s1 pol = current_background_pollution s pol"
    if "pol \<notin> fst ` set update"
    unfolding bg using that by (rule update_background_other)
  show "current_background_pollution s1 pol = Some v"
    if "distinct (map fst update)" and "(pol, v) \<in> set update" for v
    unfolding bg using that by (rule update_background_present)
  show "sub_domain_loop ext a st rc (date_current s) w series (mesh a)
          (s\<lparr>current_background_pollution := current_background_pollution s1\<rparr>) =
        Inr (s1\<lparr>date_current := date_current s\<rparr>)"
    by (rule loop_body_present(2) [OF assms(1) w series])
next
  assume "background_pollution a (date_current s) = None \<or>
          map_of (weather_data a) (date_current s) = None \<or>
          map_of (traffic_volumes a) (date_current s) = None"
  with assms(1) show "current_background_pollution s1 = current_background_pollution s"
    by (rule loop_body_no_update)
next
  assume "date_current s \<le> date_end a"
  then show "time_loop ext a st rc s = time_loop ext a st rc s1"
    using assms(1) by (rule time_loop_step)
next
  assume "\<forall>k<n. background_pollution a (date_current s1 + 3600 * int k) = None \<or>
                 map_of (weather_data a) (date_current s1 + 3600 * int k) = None \<or>
                 map_of (traffic_volumes a) (date_current s1 + 3600 * int k) = None"
  with assms(2) show "current_background_pollution s2 = current_background_pollution s1"
    by (rule iterations_no_update)
qed

lemma example_body_3600:
  "loop_body example_externals example_arguments example_stats
     (receptor_coords example_externals example_arguments) example_state_3600 =
   Inr example_state_7200"
  by (simp add: loop_body_def Let_def time_step_def example_arguments_def
      example_state_3600_def example_state_7200_def sub_domain_loop_no_caline fun_eq_iff)

lemma example_body_7200:
  "loop_body example_externals example_arguments example_stats
     (receptor_coords example_externals example_arguments) example_state_7200 =
   Inr (example_state_7200\<lparr>date_current := 10800\<rparr>)"
  by (simp add: loop_body_def Let_def time_step_def example_arguments_def
      example_state_7200_def)

theorem background_carry_forward_witness:
  "loop_body example_externals example_arguments example_stats
     (receptor_coords example_externals example_arguments) example_state_3600 =
     Inr example_state_7200 \<and>
   iterations example_externals example_arguments example_stats
     (receptor_coords example_externals example_arguments) 1 example_state_7200 =
     Inr (example_state_7200\<lparr>date_current := 10800\<rparr>) \<and>
   map_of (weather_data example_arguments) (date_current example_state_3600) =
     Some (12, 4, 3 / 2, 17) \<and>
   map_of (traffic_volumes example_arguments) (date_current example_state_3600) =
     Some [((1, 2), 300)] \<and>
   background_pollution example_arguments (date_current example_state_3600) =
     Some [(''NO2'', 4)] \<and>
   distinct (map fst [(''NO2'', 4 :: real)]) \<and>
   current_background_pollution example_state_3600 ''NO2'' = Some 2 \<and>
   current_background_pollution example_state_7200 ''NO2'' = Some 4 \<and>
   current_background_pollution example_state_7200 ''PM10'' =
     current_background_pollution example_state_3600 ''PM10'' \<and>
   map_of (weather_data example_arguments) (date_current example_state_7200) = None \<and>
   current_background_pollution (example_state_7200\<lparr>date_current := 10800\<rparr>) =
     current_background_pollution example_state_7200"
proof -
  have iter: "iterations example_externals example_arguments example_stats
     (receptor_coords example_externals example_arguments) 1 example_state_7200 =
     Inr (example_state_7200\<lparr>date_current := 10800\<rparr>)"
    using example_body_7200 by simp
  have w: "map_of (weather_data example_arguments) (date_current example_state_3600) =
     Some (12, 4, 3 / 2, 17)"
    by (simp add: example_arguments_def example_state_3600_def)
  have series: "map_of (traffic_volumes example_arguments) (date_current example_state_3600) =
     Some [((1, 2), 300)]"
    by (simp add: example_arguments_def example_state_3600_def)
  have update: "background_pollution example_arguments (date_current example_state_3600) =
     Some [(''NO2'', 4)]"
    by (simp add: example_arguments_def example_state_3600_def)
  have no_weather: "map_of (weather_data example_arguments) (date_current example_state_7200) = None"
    by (simp add: example_arguments_def example_state_7200_def)
  note cf = background_carry_forward [OF example_body_3600 iter]
  from cf w series update
  have overwritten: "current_background_pollution example_state_7200 ''NO2'' = Some 4"
    and kept: "current_background_pollution example_state_7200 ''PM10'' =
       current_background_pollution example_state_3600 ''PM10''"
    by auto
  from cf no_weather
  have carried: "current_background_pollution (example_state_7200\<lparr>date_current := 10800\<rparr>) =
     current_background_pollution example_state_7200"
    by simp
  have before: "current_background_pollution example_state_3600 ''NO2'' = Some 2"
    by (simp add: example_state_3600_def)
  from example_body_3600 iter w series update overwritten kept no_weather carried before
  show ?thesis
    by simp
qed

theorem background_update_counterexample:
  "background_pollution example_arguments (date_current example_state_7200) =
     Some [(''PM10'', 9)] \<and>
   current_background_pollution example_state_7200 ''PM10'' = Some 3 \<and>
   loop_body example_externals example_arguments example_stats
     (receptor_coords example_externals example_arguments) example_state_7200 =
     Inr (example_state_7200\<lparr>date_current := 10800\<rparr>) \<and>
   current_background_pollution (example_state_7200\<lparr>date_current := 10800\<rparr>) ''PM10'' \<noteq> Some 9"
  using example_body_7200
  by (simp add: example_arguments_def example_state_7200_def)

section \<open>Time statistic (C8)\<close>






section \<open>The records of a run\<close>

lemma same_writer_refl: "same_writer s s"
  by (simp add: same_writer_def)

lemma same_writer_collect:
  "same_writer s s' \<Longrightarrow> same_writer (collect_entry s x) (collect_entry s' x)"
  by (simp add: same_writer_def collect_entry_def Let_def)

lemma same_writer_foldl:
  "same_writer s s' \<Longrightarrow> same_writer (foldl collect_entry s xs) (foldl collect_entry s' xs)"
  by (induction xs arbitrary: s s') (auto intro: same_writer_collect)

lemma same_writer_trans: "same_writer s s' \<Longrightarrow> same_writer s' s'' \<Longrightarrow> same_writer s s''"
  by (simp add: same_writer_def)

lemma same_writer_final_flush: "same_writer s s' \<Longrightarrow> final_flush s = final_flush s'"
  by (simp add: same_writer_def final_flush_def)

lemma foldl_collect_background:
  "current_background_pollution (foldl collect_entry s xs) = current_background_pollution s"
  by (induction xs arbitrary: s) (auto simp: collect_entry_background)

lemma foldl_collect_date: "date_current (foldl collect_entry s xs) = date_current s"
  by (induction xs arbitrary: s) (auto simp: collect_entry_date)

lemma sub_domain_loop_assembled:
  "sub_domain_loop ext a st rc t w series cells s =
     (case assembled_at ext a st rc (current_background_pollution s) t w series cells of
        Inl e \<Rightarrow> Inl e
      | Inr ds \<Rightarrow> Inr (foldl collect_entry s ds))"
proof (induction cells arbitrary: s)
  case Nil
  then show ?case by simp
next
  case (Cons c cells)
  obtain sub_domain_id cell where c: "c = (sub_domain_id, cell)" by (cases c)
  show ?case
    unfolding c
    by (simp add: Cons.IH collect_entry_background split: option.splits sum.splits)
qed

lemma loop_body_assembled:
  assumes "loop_body ext a st rc s = Inr s'"
  shows "\<exists>ds. assembled_in_iteration ext a st rc (date_current s) (current_background_pollution s)
                = Inr ds \<and>
              same_writer s' (foldl collect_entry s ds) \<and>
              current_background_pollution s' =
                next_background a (date_current s) (current_background_pollution s)"
proof (cases "map_of (weather_data a) (date_current s) = None \<or>
    map_of (traffic_volumes a) (date_current s) = None")
  case True
  from loop_body_skip [OF this, of ext st rc] assms
  have "s' = s\<lparr>date_current := date_current s + 3600\<rparr>" by simp
  with True show ?thesis
    by (auto simp: assembled_in_iteration_def next_background_def same_writer_def
        split: option.splits)
next
  case False
  then obtain w series where
    w: "map_of (weather_data a) (date_current s) = Some w" and
    series: "map_of (traffic_volumes a) (date_current s) = Some series"
    by auto
  let ?bg = "next_background a (date_current s) (current_background_pollution s)"
  have bg: "current_background_pollution s' = ?bg"
    using loop_body_present(1) [OF assms w series] w series
    by (simp add: next_background_def)
  from loop_body_present(2) [OF assms w series] obtain ds where
    ds: "assembled_at ext a st rc ?bg (date_current s) w series (mesh a) = Inr ds" and
    s': "s'\<lparr>date_current := date_current s\<rparr> =
         foldl collect_entry (s\<lparr>current_background_pollution := ?bg\<rparr>) ds"
    unfolding sub_domain_loop_assembled bg by (auto split: sum.splits)
  have "same_writer s' (s'\<lparr>date_current := date_current s\<rparr>)"
    by (simp add: same_writer_def)
  moreover have "same_writer (foldl collect_entry (s\<lparr>current_background_pollution := ?bg\<rparr>) ds)
      (foldl collect_entry s ds)"
    by (rule same_writer_foldl) (simp add: same_writer_def)
  ultimately have "same_writer s' (foldl collect_entry s ds)"
    unfolding s' by (rule same_writer_trans)
  with ds bg w series show ?thesis
    by (auto simp: assembled_in_iteration_def)
qed

lemma time_loop_assembled:
  "time_loop ext a st rc s = Inr r \<Longrightarrow>
   \<exists>ds. assembled_records ext a st rc (date_current s) (current_background_pollution s) = Inr ds \<and>
        same_writer r (foldl collect_entry s ds)"
proof (induction ext a st rc s rule: time_loop.induct)
  case (1 ext a st rc s)
  show ?case
  proof (cases "date_current s \<le> date_end a")
    case False
    with "1.prems" have "r = s" by (subst (asm) time_loop.simps) simp
    with False show ?thesis
      by (subst assembled_records.simps) (simp add: same_writer_refl)
  next
    case True
    with "1.prems" obtain s' where
      body: "loop_body ext a st rc s = Inr s'" and rest: "time_loop ext a st rc s' = Inr r"
      by (subst (asm) time_loop.simps) (auto split: sum.splits)
    from loop_body_assembled [OF body] obtain now where
      now: "assembled_in_iteration ext a st rc (date_current s) (current_background_pollution s)
             = Inr now" and
      w1: "same_writer s' (foldl collect_entry s now)" and
      bg: "current_background_pollution s' =
             next_background a (date_current s) (current_background_pollution s)"
      by blast
    have d: "date_current s' = date_current s + 3600"
      using loop_body_date [OF body] by (simp add: time_step_def)
    from "1.IH" [OF True body rest] obtain later where
      later: "assembled_records ext a st rc (date_current s') (current_background_pollution s')
               = Inr later" and
      w2: "same_writer r (foldl collect_entry s' later)"
      by blast
    have "assembled_records ext a st rc (date_current s) (current_background_pollution s)
            = Inr (now @ later)"
      using True now later unfolding d bg
      by (subst assembled_records.simps) simp
    moreover have "same_writer r (foldl collect_entry s (now @ later))"
      using w2 same_writer_foldl [OF w1, of later]
      by (auto intro: same_writer_trans)
    ultimately show ?thesis by blast
  qed
qed

section \<open>Properties of the writer\<close>

lemma held_collect: "held (collect_entry s x) = held s @ [x]"
  by (simp add: held_def collect_entry_def Let_def)

lemma invariant_collect: "writer_invariant s \<Longrightarrow> writer_invariant (collect_entry s x)"
  by (auto simp: writer_invariant_def collect_entry_def Let_def max_collection_size_def)

lemma foldl_collect_held:
  "writer_invariant s \<Longrightarrow>
   writer_invariant (foldl collect_entry s xs) \<and> held (foldl collect_entry s xs) = held s @ xs"
  by (induction xs arbitrary: s) (auto simp: held_collect invariant_collect)

lemma length_concat_uniform:
  "list_all (\<lambda>batch. length batch = m) bs \<Longrightarrow> length (concat bs) = length bs * m"
  by (induction bs) auto

lemma map_length_uniform:
  "list_all (\<lambda>batch. length batch = m) bs \<Longrightarrow> map length bs = replicate (length bs) m"
  by (induction bs) auto

lemma final_flush_batches:
  assumes "writer_invariant s"
  shows "concat (final_flush s) = held s"
    and "map length (final_flush s) =
           replicate (length (held s) div max_collection_size) max_collection_size @
           (if length (held s) mod max_collection_size = 0 then []
            else [length (held s) mod max_collection_size])"
proof -
  let ?buf = "collection_of_pre_processed_entries s" and ?bs = "collection_pre s"
  let ?m = max_collection_size
  from assms have small: "length ?buf < ?m" and full: "list_all (\<lambda>batch. length batch = ?m) ?bs"
    by (simp_all add: writer_invariant_def)
  show "concat (final_flush s) = held s"
    by (simp add: final_flush_def held_def)
  have n: "length (held s) = length ?bs * ?m + length ?buf"
    by (simp add: held_def length_concat_uniform [OF full])
  have q: "length (held s) div ?m = length ?bs"
    unfolding n using small by simp
  have r: "length (held s) mod ?m = length ?buf"
    unfolding n using small by simp
  show "map length (final_flush s) =
           replicate (length (held s) div ?m) ?m @
           (if length (held s) mod ?m = 0 then [] else [length (held s) mod ?m])"
    unfolding q r by (simp add: final_flush_def map_length_uniform [OF full])
qed

lemma initial_state_writer:
  "writer_invariant (initial_state ext a)" "held (initial_state ext a) = []"
  by (simp_all add: writer_invariant_def held_def initial_state_def max_collection_size_def)

text \<open>The batches of a run that returns are the records it assembled, cut at the threshold.\<close>

lemma pre_process_batches:
  assumes "pre_process ext a = Inr batches"
  shows "\<exists>st ds.
           compute_stats (date_start a) (date_end a) (weather_data a) (traffic_volumes a)
             (utilities a) = Inr st \<and>
           assembled_records ext a st (receptor_coords ext a) (date_start a)
             (get_empirical_background_pollution ext) = Inr ds \<and>
           concat batches = ds \<and>
           map length batches =
             replicate (length ds div max_collection_size) max_collection_size @
             (if length ds mod max_collection_size = 0 then []
              else [length ds mod max_collection_size])"
proof -
  from assms obtain st r where
    st: "compute_stats (date_start a) (date_end a) (weather_data a) (traffic_volumes a)
             (utilities a) = Inr st" and
    r: "time_loop ext a st (receptor_coords ext a) (initial_state ext a) = Inr r" and
    batches: "batches = final_flush r"
    by (auto simp: pre_process_def split: sum.splits)
  from time_loop_assembled [OF r] obtain ds where
    ds: "assembled_records ext a st (receptor_coords ext a) (date_start a)
             (get_empirical_background_pollution ext) = Inr ds" and
    w: "same_writer r (foldl collect_entry (initial_state ext a) ds)"
    by (auto simp: initial_state_def)
  let ?s = "foldl collect_entry (initial_state ext a) ds"
  have inv: "writer_invariant ?s" and held: "held ?s = ds"
    using foldl_collect_held [OF initial_state_writer(1), of ext a ds]
    by (simp_all add: initial_state_writer(2))
  have "batches = final_flush ?s"
    unfolding batches using w by (rule same_writer_final_flush)
  with final_flush_batches [OF inv] held st ds show ?thesis
    by auto
qed

section \<open>Batched writer (C9)\<close>

lemma assign_receptors_none:
  "(\<forall>i. rc i = []) \<Longrightarrow> assign_receptors ext [] cells rc i = []"
proof (induction cells arbitrary: rc)
  case Nil
  then show ?case by simp
next
  case (Cons c cells)
  obtain sub_domain_id cell where c: "c = (sub_domain_id, cell)" by (cases c)
  have "\<forall>i. (rc(sub_domain_id := sort_key (\<lambda>x. (fst x, snd x)) (rc sub_domain_id @ []))) i = []"
    using Cons.prems by simp
  from Cons.IH [OF this] show ?case
    unfolding c by (simp add: fun_upd_def)
qed

lemma assembled_at_plain:
  assumes "caline_estimates a t = Some estimates"
    and "\<forall>c \<in> set cells. links (snd c) = []"
    and "\<forall>i. rc i = []"
  shows "assembled_at ext a st rc bg t w series cells =
         Inr (map (\<lambda>c. \<lparr> mesh_size = length (mesh a), sub_domain = fst c,
                          input = [normalize_time st t] @ normalize_weather st w @
                                  replicate 100 (Fin 0),
                          labels = [] \<rparr>) cells)"
  using assms(2)
proof (induction cells)
  case Nil
  then show ?case by simp
next
  case (Cons c cells)
  obtain sub_domain_id cell where c: "c = (sub_domain_id, cell)" by (cases c)
  from Cons.prems have l: "links cell = []" and rest: "\<forall>c \<in> set cells. links (snd c) = []"
    by (simp_all add: c)
  have "assemble ext a st rc bg t w series estimates sub_domain_id cell =
        Inr \<lparr> mesh_size = length (mesh a), sub_domain = sub_domain_id,
              input = [normalize_time st t] @ normalize_weather st w @ replicate 100 (Fin 0),
              labels = [] \<rparr>"
    using l assms(3) by (simp add: assemble_def current_traffic_volume_def)
  with Cons.IH [OF rest] assms(1) show ?case
    unfolding c by simp
qed

lemma many_cells_compute_stats:
  "compute_stats (date_start many_cells_arguments) (date_end many_cells_arguments)
     (weather_data many_cells_arguments) (traffic_volumes many_cells_arguments)
     (utilities many_cells_arguments) = Inr many_cells_stats"
  by (simp add: compute_stats_def many_cells_arguments_def many_cells_stats_def
      weather_statistic_def coord_statistic_def volumes_of_def time_interval_def
      np_mean_two np_std_two np_mean_def np_std_def Let_def)

lemma many_cells_assembled:
  "assembled_records example_externals many_cells_arguments many_cells_stats
     (receptor_coords example_externals many_cells_arguments)
     (date_start many_cells_arguments) (get_empirical_background_pollution example_externals) =
   Inr (map many_cells_record [0..<100001])"
proof -
  let ?a = many_cells_arguments
  let ?rc = "receptor_coords example_externals ?a"
  have rc: "\<forall>i. ?rc i = []"
    by (simp add: receptor_coords_def many_cells_arguments_def assign_receptors_none)
  have caline: "caline_estimates ?a 0 = Some Map.empty"
    by (simp add: many_cells_arguments_def)
  have plain: "\<forall>c \<in> set (mesh ?a). links (snd c) = []"
    by (auto simp: many_cells_arguments_def)
  have len: "length (mesh ?a) = 100001"
    by (simp add: many_cells_arguments_def)
  have wd: "map_of (weather_data ?a) 0 = Some (10, 2, 1 / 2, 15)"
    and tv: "map_of (traffic_volumes ?a) 0 = Some []"
    by (simp_all add: many_cells_arguments_def)
  have at: "assembled_at example_externals ?a many_cells_stats ?rc bg 0 (10, 2, 1 / 2, 15) []
      (mesh ?a) = Inr (map many_cells_record [0..<100001])" for bg
    unfolding assembled_at_plain [OF caline plain rc] len
    by (simp add: many_cells_arguments_def many_cells_record_def many_cells_stats_def
        normalize_time_def normalize_weather_def normalize_value_def comp_def)
  have now: "assembled_in_iteration example_externals ?a many_cells_stats ?rc 0 bg =
      Inr (map many_cells_record [0..<100001])" for bg
    unfolding assembled_in_iteration_def
    by (simp add: wd tv at)
  have later: "assembled_records example_externals ?a many_cells_stats ?rc 3600 bg = Inr []" for bg
    by (subst assembled_records.simps) (simp add: many_cells_arguments_def)
  have start: "date_start ?a = 0" and stop: "date_end ?a = 1800"
    by (simp_all add: many_cells_arguments_def)
  show ?thesis
    unfolding start
    by (subst assembled_records.simps) (simp add: stop now later)
qed

lemma many_cells_returns:
  "\<exists>batches. pre_process example_externals many_cells_arguments = Inr batches"
proof -
  let ?a = many_cells_arguments
  let ?rc = "receptor_coords example_externals ?a"
  let ?s0 = "initial_state example_externals ?a"
  have wd: "map_of (weather_data ?a) 0 = Some (10, 2, 1 / 2, 15)"
    and tv: "map_of (traffic_volumes ?a) 0 = Some []"
    and bp: "background_pollution ?a 0 = None"
    and start: "date_current ?s0 = 0" and stop: "date_end ?a = 1800"
    by (simp_all add: many_cells_arguments_def initial_state_def)
  have rc: "\<forall>i. ?rc i = []"
    by (simp add: receptor_coords_def many_cells_arguments_def assign_receptors_none)
  have caline: "caline_estimates ?a 0 = Some Map.empty"
    by (simp add: many_cells_arguments_def)
  have plain: "\<forall>c \<in> set (mesh ?a). links (snd c) = []"
    by (auto simp: many_cells_arguments_def)
  obtain s1 where body: "loop_body example_externals ?a many_cells_stats ?rc ?s0 = Inr s1"
    unfolding loop_body_def Let_def start
    by (simp add: wd tv bp sub_domain_loop_assembled assembled_at_plain [OF caline plain rc])
  have d1: "date_current s1 = 3600"
    using loop_body_date [OF body] start by (simp add: time_step_def)
  have "time_loop example_externals ?a many_cells_stats ?rc s1 = Inr s1"
    by (subst time_loop.simps) (simp add: d1 stop)
  then have "time_loop example_externals ?a many_cells_stats ?rc ?s0 = Inr s1"
    using time_loop_step [OF _ body] start stop by simp
  then show ?thesis
    by (simp add: pre_process_def many_cells_compute_stats)
qed

lemma two_batches:
  assumes "map length bs = [m, 1]" and "concat bs = xs"
  shows "bs = [take m xs, drop m xs]"
proof -
  from assms(1) obtain b1 b2 where bs: "bs = [b1, b2]" and l: "length b1 = m"
    by (cases bs; cases "tl bs"; cases "tl (tl bs)") auto
  from assms(2) have "xs = b1 @ b2" by (simp add: bs)
  with l show ?thesis by (simp add: bs)
qed

text \<open>
  C9. Every assembled record is appended to the buffer; the buffer is passed to
  \<open>insert_many\<close> and cleared exactly when the append brings it to 100,000 records; after
  the loop a non-empty buffer is inserted as the last batch. So the batches of a run that
  returns are, concatenated, the records that the run assembled, each once and in
  assembly order; every batch but a last shorter one has 100,000 records; and a run that
  assembles 100,001 records makes exactly two calls, with 100,000 records and 1 record.
\<close>

theorem batched_writer:
  assumes "pre_process ext a = Inr batches"
  shows "(\<exists>st ds.
            compute_stats (date_start a) (date_end a) (weather_data a) (traffic_volumes a)
              (utilities a) = Inr st \<and>
            assembled_records ext a st (receptor_coords ext a) (date_start a)
              (get_empirical_background_pollution ext) = Inr ds \<and>
            concat batches = ds \<and>
            map length batches =
              replicate (length ds div 100000) 100000 @
              (if length ds mod 100000 = 0 then [] else [length ds mod 100000]) \<and>
            (length ds = 100001 \<longrightarrow> map length batches = [100000, 1])) \<and>
         (\<forall>s x. collect_entry s x =
            (if length (collection_of_pre_processed_entries s) + 1 < 100000
             then s\<lparr>collection_of_pre_processed_entries :=
                      collection_of_pre_processed_entries s @ [x]\<rparr>
             else s\<lparr>collection_of_pre_processed_entries := [],
                    collection_pre :=
                      collection_pre s @ [collection_of_pre_processed_entries s @ [x]]\<rparr>)) \<and>
         (\<forall>s. final_flush s =
            (if collection_of_pre_processed_entries s = [] then collection_pre s
             else collection_pre s @ [collection_of_pre_processed_entries s]))"
proof -
  from pre_process_batches [OF assms] obtain st ds where
    st: "compute_stats (date_start a) (date_end a) (weather_data a) (traffic_volumes a)
              (utilities a) = Inr st" and
    ds: "assembled_records ext a st (receptor_coords ext a) (date_start a)
              (get_empirical_background_pollution ext) = Inr ds" and
    all: "concat batches = ds" and
    sizes: "map length batches =
              replicate (length ds div 100000) 100000 @
              (if length ds mod 100000 = 0 then [] else [length ds mod 100000])"
    unfolding max_collection_size_def by blast
  have scenario: "map length batches = [100000, 1]" if "length ds = 100001"
    unfolding sizes that by (simp add: eval_nat_numeral(1))
  have step: "collect_entry s x =
            (if length (collection_of_pre_processed_entries s) + 1 < 100000
             then s\<lparr>collection_of_pre_processed_entries :=
                      collection_of_pre_processed_entries s @ [x]\<rparr>
             else s\<lparr>collection_of_pre_processed_entries := [],
                    collection_pre :=
                      collection_pre s @ [collection_of_pre_processed_entries s @ [x]]\<rparr>)"
    for s x
    by (simp add: collect_entry_def Let_def max_collection_size_def)
  have last: "final_flush s =
            (if collection_of_pre_processed_entries s = [] then collection_pre s
             else collection_pre s @ [collection_of_pre_processed_entries s])" for s
    by (simp add: final_flush_def)
  from st ds all sizes scenario
  have "\<exists>st ds.
            compute_stats (date_start a) (date_end a) (weather_data a) (traffic_volumes a)
              (utilities a) = Inr st \<and>
            assembled_records ext a st (receptor_coords ext a) (date_start a)
              (get_empirical_background_pollution ext) = Inr ds \<and>
            concat batches = ds \<and>
            map length batches =
              replicate (length ds div 100000) 100000 @
              (if length ds mod 100000 = 0 then [] else [length ds mod 100000]) \<and>
            (length ds = 100001 \<longrightarrow> map length batches = [100000, 1])"
    by (intro exI [of _ st] exI [of _ ds] conjI impI)
  then show ?thesis
    using step last by (intro conjI allI)
qed

theorem batched_writer_witness:
  "pre_process example_externals many_cells_arguments =
     Inr [map many_cells_record [0..<100000], [many_cells_record 100000]] \<and>
   length (map many_cells_record [0..<100000]) = 100000"
proof -
  from many_cells_returns obtain batches where
    run: "pre_process example_externals many_cells_arguments = Inr batches" ..
  from batched_writer [OF run, THEN conjunct1] obtain st ds where
    st: "compute_stats (date_start many_cells_arguments) (date_end many_cells_arguments)
           (weather_data many_cells_arguments) (traffic_volumes many_cells_arguments)
           (utilities many_cells_arguments) = Inr st" and
    ds: "assembled_records example_externals many_cells_arguments st
           (receptor_coords example_externals many_cells_arguments)
           (date_start many_cells_arguments)
           (get_empirical_background_pollution example_externals) = Inr ds" and
    concat: "concat batches = ds" and
    scenario: "length ds = 100001 \<longrightarrow> map length batches = [100000, 1]"
    by (elim exE conjE)
  from st have "st = many_cells_stats"
    by (simp add: many_cells_compute_stats)
  with ds have "ds = map many_cells_record [0..<100001]"
    by (simp add: many_cells_assembled)
  with concat scenario
  have all: "concat batches = map many_cells_record [0..<100001]"
    and sizes: "map length batches = [100000, 1]"
    by simp_all
  from two_batches [OF sizes all]
  have "batches = [map many_cells_record [0..<100000], [many_cells_record 100000]]"
    by (simp add: take_map drop_map)
  with run show ?thesis
    by simp
qed

section \<open>Record lengths (C1)\<close>

lemma assemble_lengths:
  assumes "assemble ext a st rc bg t w series estimates sid cell = Inr data"
  shows "sub_domain data = sid \<and>
         length (input data) = 5 + max 20 (length (links cell)) * 5 + 2 * length (rc sid) \<and>
         length (labels data) = length (rc sid) * length (Pollutant ext)"
proof -
  from assemble_shape [OF assms] obtain blk recs where
    blk: "current_traffic_volume st (links_in_area (utilities a)) series (links cell) = Inr blk" and
    loop: "receptor_loop st (Pollutant ext) estimates bg (rc sid) = Inr (recs, labels data)" and
    inp: "input data = normalize_time st t # normalize_weather st w @ blk @ recs" and
    sid: "sub_domain data = sid"
    by blast
  from current_traffic_volume_block(1) [OF blk] receptor_loop_lengths [OF loop] sid
  show ?thesis
    unfolding inp by (simp add: normalize_weather_length)
qed

lemma assembled_at_member:
  "assembled_at ext a st rc bg t w series cells = Inr ds \<Longrightarrow> d \<in> set ds \<Longrightarrow>
   \<exists>sid cell estimates. (sid, cell) \<in> set cells \<and>
      assemble ext a st rc bg t w series estimates sid cell = Inr d"
proof (induction cells arbitrary: ds)
  case Nil
  then show ?case by simp
next
  case (Cons c cells)
  obtain sub_domain_id cell where c: "c = (sub_domain_id, cell)" by (cases c)
  show ?case
  proof (cases "caline_estimates a t")
    case None
    with Cons.prems have "assembled_at ext a st rc bg t w series cells = Inr ds"
      by (simp add: c)
    from Cons.IH [OF this Cons.prems(2)] show ?thesis by auto
  next
    case (Some estimates)
    with Cons.prems(1) obtain data others where
      data: "assemble ext a st rc bg t w series estimates sub_domain_id cell = Inr data" and
      others: "assembled_at ext a st rc bg t w series cells = Inr others" and
      ds: "ds = data # others"
      by (auto simp: c split: sum.splits)
    from Cons.prems(2) ds consider "d = data" | "d \<in> set others" by auto
    then show ?thesis
    proof cases
      case 1
      with data c show ?thesis by auto
    next
      case 2
      from Cons.IH [OF others this] show ?thesis by auto
    qed
  qed
qed

lemma assembled_records_member:
  "assembled_records ext a st rc t bg = Inr ds \<Longrightarrow> d \<in> set ds \<Longrightarrow>
   \<exists>sid cell bg' t' w series estimates. (sid, cell) \<in> set (mesh a) \<and>
      assemble ext a st rc bg' t' w series estimates sid cell = Inr d"
proof (induction ext a st rc t bg arbitrary: ds rule: assembled_records.induct)
  case (1 ext a st rc t bg)
  show ?case
  proof (cases "t \<le> date_end a")
    case False
    with "1.prems" show ?thesis
      by (subst (asm) assembled_records.simps) simp
  next
    case True
    with "1.prems"(1) obtain now later where
      now: "assembled_in_iteration ext a st rc t bg = Inr now" and
      later: "assembled_records ext a st rc (t + 3600) (next_background a t bg) = Inr later" and
      ds: "ds = now @ later"
      by (subst (asm) assembled_records.simps) (auto split: sum.splits)
    from "1.prems"(2) ds consider "d \<in> set now" | "d \<in> set later" by auto
    then show ?thesis
    proof cases
      case 1
      with now obtain w series where
        "assembled_at ext a st rc (next_background a t bg) t w series (mesh a) = Inr now"
        by (auto simp: assembled_in_iteration_def split: option.splits)
      from assembled_at_member [OF this 1] show ?thesis by blast
    next
      case 2
      from "1.IH" [OF True now later 2] show ?thesis .
    qed
  qed
qed

text \<open>
  C1, as the code has it. Every record of a run belongs to a sub-domain of the mesh. Its
  labels hold one value per pollutant for each receptor assigned to the sub-domain, so
  their number is a multiple of the size of the pollutant enumeration. Its input holds
  the timestamp, four weather values, five scalars for each of \<open>max 20 k\<close> links and two
  scalars for each assigned receptor: for at most 20 links that is \<open>105 + 2 * r\<close>, which
  is the same for two records only when their sub-domains have the same number \<open>r\<close> of
  receptors.
\<close>

theorem record_lengths:
  assumes "pre_process ext a = Inr batches"
    and "batch \<in> set batches" and "r \<in> set batch"
  shows "\<exists>cell. (sub_domain r, cell) \<in> set (mesh a) \<and>
           length (input r) =
             5 + max 20 (length (links cell)) * 5 +
             2 * length (receptor_coords ext a (sub_domain r)) \<and>
           length (labels r) =
             length (receptor_coords ext a (sub_domain r)) * length (Pollutant ext)"
proof -
  from pre_process_batches [OF assms(1)] obtain st ds where
    ds: "assembled_records ext a st (receptor_coords ext a) (date_start a)
           (get_empirical_background_pollution ext) = Inr ds" and
    all: "concat batches = ds"
    by blast
  from assms(2,3) all have "r \<in> set ds" by auto
  from assembled_records_member [OF ds this] obtain sid cell bg' t' w series estimates where
    cell: "(sid, cell) \<in> set (mesh a)" and
    r: "assemble ext a st (receptor_coords ext a) bg' t' w series estimates sid cell = Inr r"
    by blast
  from assemble_lengths [OF r] cell show ?thesis
    by auto
qed

theorem record_lengths_witness:
  "pre_process example_externals example_arguments =
     Inr [[example_record_6, example_record_7]] \<and>
   [example_record_6, example_record_7] \<in> set [[example_record_6, example_record_7]] \<and>
   example_record_7 \<in> set [example_record_6, example_record_7] \<and>
   length (input example_record_7) = 5 + 20 * 5 + 2 * 1 \<and>
   length (labels example_record_7) = 1 * 3"
proof -
  have batch: "[example_record_6, example_record_7] \<in> set [[example_record_6, example_record_7]]"
    and r: "example_record_7 \<in> set [example_record_6, example_record_7]"
    by simp_all
  have sid: "sub_domain example_record_7 = 7"
    by (simp add: example_record_7_def)
  from record_lengths [OF example_run batch r, unfolded example_receptor_coords sid]
  obtain cell where
    cell: "(7, cell) \<in> set (mesh example_arguments)" and
    len: "length (input example_record_7) = 5 + max 20 (length (links cell)) * 5 + 2 * 1" and
    lab: "length (labels example_record_7) = 1 * length (Pollutant example_externals)"
    by auto
  from cell have "cell = example_cell_7"
    by (simp add: example_arguments_def)
  with len lab have "length (input example_record_7) = 5 + 20 * 5 + 2 * 1"
    and "length (labels example_record_7) = 1 * 3"
    by (simp_all add: example_cell_7_def example_externals_def)
  with example_run batch r show ?thesis
    by blast
qed

theorem record_lengths_counterexample:
  "pre_process example_externals example_arguments =
     Inr [[example_record_6, example_record_7]] \<and>
   length (input example_record_6) = 109 \<and>
   length (input example_record_7) = 107"
  using example_run by (simp add: example_record_6_def example_record_7_def)

section \<open>Zero standard deviation (C2)\<close>

lemma failure_simps [simp]: "failure (Inl e) = Some e" "failure (Inr v) = None"
  by (simp_all add: failure_def)

lemma failure_same_Inl: "failure x = failure y \<Longrightarrow> x = Inl e \<Longrightarrow> y = Inl e"
  by (cases y) simp_all

lemma failure_same_Inr: "failure x = failure y \<Longrightarrow> x = Inr v \<Longrightarrow> \<exists>v'. y = Inr v'"
  by (cases y) simp_all

subsection \<open>Whether a run raises does not depend on the statistics\<close>

lemma current_traffic_volume_failure:
  "failure (current_traffic_volume st lia series ls) = failure (links_loop lia ls)"
  by (simp add: current_traffic_volume_def split: sum.splits)

lemma receptor_loop_failure:
  "failure (receptor_loop st polls estimates bg cs) =
   failure (receptor_loop st' polls estimates bg cs)"
proof (induction cs)
  case Nil
  then show ?case by simp
next
  case (Cons c cs)
  show ?case
  proof (cases "pollutant_loop estimates bg c polls")
    case (Inl e)
    then show ?thesis by simp
  next
    case (Inr vs)
    show ?thesis
    proof (cases "receptor_loop st polls estimates bg cs")
      case (Inl e)
      with Cons.IH have "receptor_loop st' polls estimates bg cs = Inl e"
        by (rule failure_same_Inl)
      with Inl Inr show ?thesis by simp
    next
      case right: (Inr p)
      from failure_same_Inr [OF Cons.IH right]
      obtain p' where "receptor_loop st' polls estimates bg cs = Inr p'" ..
      with right Inr show ?thesis by (simp split: prod.splits)
    qed
  qed
qed

lemma assemble_failure:
  "failure (assemble ext a st rc bg t w series estimates sid cell) =
   failure (assemble ext a st' rc bg t w series estimates sid cell)"
proof (cases "links_loop (links_in_area (utilities a)) (links cell)")
  case (Inl e)
  then have "current_traffic_volume st0 (links_in_area (utilities a)) series (links cell) = Inl e"
    for st0
    by (simp add: current_traffic_volume_def)
  then show ?thesis by (simp add: assemble_def)
next
  case (Inr keyed)
  then have blk: "\<exists>blk. current_traffic_volume st0 (links_in_area (utilities a)) series (links cell)
      = Inr blk" for st0
    by (simp add: current_traffic_volume_def)
  from blk [of st] blk [of st'] obtain b b' where
    b: "current_traffic_volume st (links_in_area (utilities a)) series (links cell) = Inr b" and
    b': "current_traffic_volume st' (links_in_area (utilities a)) series (links cell) = Inr b'"
    by blast
  have "failure (assemble ext a st0 rc bg t w series estimates sid cell) =
        failure (receptor_loop st0 (Pollutant ext) estimates bg (rc sid))"
    if "current_traffic_volume st0 (links_in_area (utilities a)) series (links cell) = Inr b0"
    for st0 b0
    using that by (simp add: assemble_def split: sum.splits prod.splits)
  from this [OF b] this [OF b'] show ?thesis
    using receptor_loop_failure [of st "Pollutant ext" estimates bg "rc sid" st'] by simp
qed

lemma assembled_at_failure:
  "failure (assembled_at ext a st rc bg t w series cells) =
   failure (assembled_at ext a st' rc bg t w series cells)"
proof (induction cells)
  case Nil
  then show ?case by simp
next
  case (Cons c cells)
  obtain sub_domain_id cell where c: "c = (sub_domain_id, cell)" by (cases c)
  show ?case
  proof (cases "caline_estimates a t")
    case None
    with Cons.IH show ?thesis by (simp add: c)
  next
    case (Some estimates)
    note same = assemble_failure [of ext a st rc bg t w series estimates sub_domain_id cell st']
    show ?thesis
    proof (cases "assemble ext a st rc bg t w series estimates sub_domain_id cell")
      case (Inl e)
      with same have "assemble ext a st' rc bg t w series estimates sub_domain_id cell = Inl e"
        by (rule failure_same_Inl)
      with Inl Some show ?thesis by (simp add: c)
    next
      case (Inr d)
      from failure_same_Inr [OF same Inr] obtain d' where
        d': "assemble ext a st' rc bg t w series estimates sub_domain_id cell = Inr d'" ..
      have "failure (assembled_at ext a st rc bg t w series (c # cells)) =
            failure (assembled_at ext a st rc bg t w series cells)"
        using Some Inr by (simp add: c split: sum.splits)
      moreover have "failure (assembled_at ext a st' rc bg t w series (c # cells)) =
            failure (assembled_at ext a st' rc bg t w series cells)"
        using Some d' by (simp add: c split: sum.splits)
      ultimately show ?thesis using Cons.IH by simp
    qed
  qed
qed

lemma assembled_in_iteration_failure:
  "failure (assembled_in_iteration ext a st rc t bg) =
   failure (assembled_in_iteration ext a st' rc t bg)"
  by (simp add: assembled_in_iteration_def assembled_at_failure [of ext a st _ _ _ _ _ _ st']
      split: option.splits)

lemma assembled_records_failure:
  "failure (assembled_records ext a st rc t bg) = failure (assembled_records ext a st' rc t bg)"
proof (induction ext a st rc t bg rule: assembled_records.induct)
  case (1 ext a st rc t bg)
  show ?case
  proof (cases "t \<le> date_end a")
    case False
    then show ?thesis
      by (subst assembled_records.simps, subst (2) assembled_records.simps) simp
  next
    case True
    note same = assembled_in_iteration_failure [of ext a st rc t bg st']
    show ?thesis
    proof (cases "assembled_in_iteration ext a st rc t bg")
      case (Inl e)
      with same have "assembled_in_iteration ext a st' rc t bg = Inl e"
        by (rule failure_same_Inl)
      with Inl True show ?thesis
        by (subst assembled_records.simps, subst (2) assembled_records.simps) simp
    next
      case (Inr now)
      from failure_same_Inr [OF same Inr] obtain now' where
        now': "assembled_in_iteration ext a st' rc t bg = Inr now'" ..
      have "failure (assembled_records ext a st rc t bg) =
            failure (assembled_records ext a st rc (t + 3600) (next_background a t bg))"
        using True Inr by (subst assembled_records.simps) (simp split: sum.splits)
      moreover have "failure (assembled_records ext a st' rc t bg) =
            failure (assembled_records ext a st' rc (t + 3600) (next_background a t bg))"
        using True now' by (subst assembled_records.simps) (simp split: sum.splits)
      ultimately show ?thesis using "1.IH" [OF True Inr] by simp
    qed
  qed
qed

lemma loop_body_failure:
  "failure (loop_body ext a st rc s) =
   failure (assembled_in_iteration ext a st rc (date_current s) (current_background_pollution s))"
  by (simp add: loop_body_def Let_def assembled_in_iteration_def next_background_def
      sub_domain_loop_assembled split: option.splits sum.splits)

lemma time_loop_failure:
  "failure (time_loop ext a st rc s) =
   failure (assembled_records ext a st rc (date_current s) (current_background_pollution s))"
proof (induction ext a st rc s rule: time_loop.induct)
  case (1 ext a st rc s)
  show ?case
  proof (cases "date_current s \<le> date_end a")
    case False
    then show ?thesis
      by (subst time_loop.simps, subst assembled_records.simps) simp
  next
    case True
    show ?thesis
    proof (cases "loop_body ext a st rc s")
      case (Inl e)
      with loop_body_failure [of ext a st rc s]
      have "assembled_in_iteration ext a st rc (date_current s) (current_background_pollution s)
              = Inl e"
        by (rule failure_same_Inl)
      with Inl True show ?thesis
        by (subst time_loop.simps, subst assembled_records.simps) simp
    next
      case (Inr s')
      from loop_body_assembled [OF Inr] obtain now where
        now: "assembled_in_iteration ext a st rc (date_current s) (current_background_pollution s)
               = Inr now" and
        bg: "current_background_pollution s' =
               next_background a (date_current s) (current_background_pollution s)"
        by blast
      have d: "date_current s' = date_current s + 3600"
        using loop_body_date [OF Inr] by (simp add: time_step_def)
      have "failure (time_loop ext a st rc s) = failure (time_loop ext a st rc s')"
        using time_loop_step [OF True Inr] by simp
      moreover have "failure (assembled_records ext a st rc (date_current s)
                        (current_background_pollution s)) =
            failure (assembled_records ext a st rc (date_current s') (current_background_pollution s'))"
        unfolding d bg using True now
        by (subst assembled_records.simps) (simp split: sum.splits)
      ultimately show ?thesis using "1.IH" [OF True Inr] by simp
    qed
  qed
qed

lemma pre_process_failure:
  assumes "compute_stats (date_start a) (date_end a) (weather_data a) (traffic_volumes a)
             (utilities a) = Inr st"
  shows "failure (pre_process ext a) =
         failure (assembled_records ext a st' (receptor_coords ext a) (date_start a)
                    (get_empirical_background_pollution ext))"
proof -
  have "failure (pre_process ext a) =
        failure (time_loop ext a st (receptor_coords ext a) (initial_state ext a))"
    using assms by (simp add: pre_process_def split: sum.splits)
  also have "\<dots> = failure (assembled_records ext a st (receptor_coords ext a) (date_start a)
                    (get_empirical_background_pollution ext))"
    by (simp add: time_loop_failure initial_state_def)
  also note assembled_records_failure [of ext a st _ _ _ st']
  finally show ?thesis .
qed

subsection \<open>What a zero deviation puts into a record\<close>

lemma normalize_value_zero_std: "\<not> is_finite (normalize_value val mean (Some 0))"
  by (simp add: normalize_value_def is_finite_def split: option.splits)

lemma normalize_coords_zero_std:
  assumes "coord_std st = (c1, c2)"
  shows "c1 = Some 0 \<Longrightarrow> \<not> is_finite (normalize_coords st c ! 0)"
    and "c2 = Some 0 \<Longrightarrow> \<not> is_finite (normalize_coords st c ! 1)"
  using assms
  by (simp_all add: normalize_coords_def normalize_value_zero_std split: prod.splits)

lemma normalize_weather_zero_std:
  assumes "weather_std st = (s1, s2, s3, s4)"
  shows "s1 = Some 0 \<Longrightarrow> \<not> is_finite (normalize_weather st w ! 0)"
    and "s2 = Some 0 \<Longrightarrow> \<not> is_finite (normalize_weather st w ! 1)"
    and "s3 = Some 0 \<Longrightarrow> \<not> is_finite (normalize_weather st w ! 2)"
    and "s4 = Some 0 \<Longrightarrow> \<not> is_finite (normalize_weather st w ! 3)"
  using assms
  by (simp_all add: normalize_weather_def normalize_value_zero_std eval_nat_numeral
      split: prod.splits)

lemma receptor_loop_coords:
  "receptor_loop st polls estimates bg cs = Inr (rs, es) \<Longrightarrow> i < length cs \<Longrightarrow>
   rs ! (2 * i) = normalize_coords st (cs ! i) ! 0 \<and>
   rs ! (2 * i + 1) = normalize_coords st (cs ! i) ! 1"
proof (induction cs arbitrary: rs es i)
  case Nil
  then show ?case by simp
next
  case (Cons c cs)
  from Cons.prems(1) obtain rs' es' where
    rest: "receptor_loop st polls estimates bg cs = Inr (rs', es')" and
    rs: "rs = normalize_coords st c @ rs'"
    by (auto split: sum.splits prod.splits)
  show ?case
  proof (cases i)
    case 0
    then show ?thesis
      unfolding rs by (simp add: nth_append normalize_coords_length)
  next
    case (Suc k)
    with Cons.prems(2) have "k < length cs" by simp
    from Cons.IH [OF rest this] Suc show ?thesis
      unfolding rs by (simp add: nth_append normalize_coords_length)
  qed
qed

lemma current_traffic_volume_entry:
  assumes "current_traffic_volume st lia series ls = Inr blk" and "i < length ls"
  shows "\<exists>c0 c1. lia (ls ! i) = Some (c0, c1) \<and>
           blk ! (5 * i) = normalize_coords st c0 ! 0 \<and>
           blk ! (5 * i + 1) = normalize_coords st c0 ! 1 \<and>
           blk ! (5 * i + 2) = normalize_coords st c1 ! 0 \<and>
           blk ! (5 * i + 3) = normalize_coords st c1 ! 1 \<and>
           blk ! (5 * i + 4) =
             (case map_of series (sorted_link (ls ! i)) of
                Some volume \<Rightarrow> normalize_traffic st volume
              | None \<Rightarrow> Fin 0)"
proof -
  let ?slot = "case map_of series (sorted_link (ls ! i)) of
                 Some volume \<Rightarrow> normalize_traffic st volume
               | None \<Rightarrow> Fin 0"
  from current_traffic_volume_block(3) [OF assms] obtain c0 c1 where
    g: "lia (ls ! i) = Some (c0, c1)" and
    entry: "take 5 (drop (5 * i) blk) =
              normalize_coords st c0 @ normalize_coords st c1 @ [?slot]"
    by blast
  have len: "length blk = max 20 (length ls) * 5"
    by (rule current_traffic_volume_block(1) [OF assms(1)])
  have at: "blk ! (5 * i + j) = take 5 (drop (5 * i) blk) ! j" if "j < 5" for j
    using that assms(2) len by simp
  obtain x0 x1 where c0: "normalize_coords st c0 = [x0, x1]"
    using normalize_coords_length [of st c0] by (auto simp: length_Suc_conv numeral_2_eq_2)
  obtain y0 y1 where c1: "normalize_coords st c1 = [y0, y1]"
    using normalize_coords_length [of st c1] by (auto simp: length_Suc_conv numeral_2_eq_2)
  have e: "take 5 (drop (5 * i) blk) = [x0, x1, y0, y1, ?slot]"
    by (simp add: entry c0 c1)
  have "blk ! (5 * i) = x0" using at [of 0] unfolding e by simp
  moreover have "blk ! (5 * i + 1) = x1" using at [of 1] unfolding e by simp
  moreover have "blk ! (5 * i + 2) = y0" using at [of 2] unfolding e by simp
  moreover have "blk ! (5 * i + 3) = y1" using at [of 3] unfolding e by simp
  moreover have "blk ! (5 * i + 4) = ?slot" using at [of 4] unfolding e by simp
  ultimately show ?thesis
    using g by (simp add: c0 c1)
qed

text \<open>Where a record of the run comes from.\<close>

lemma assembled_at_origin:
  "assembled_at ext a st rc bg t w series cells = Inr ds \<Longrightarrow> d \<in> set ds \<Longrightarrow>
   \<exists>sid cell estimates. (sid, cell) \<in> set cells \<and> caline_estimates a t = Some estimates \<and>
      assemble ext a st rc bg t w series estimates sid cell = Inr d"
proof (induction cells arbitrary: ds)
  case Nil
  then show ?case by simp
next
  case (Cons c cells)
  obtain sub_domain_id cell where c: "c = (sub_domain_id, cell)" by (cases c)
  show ?case
  proof (cases "caline_estimates a t")
    case None
    with Cons.prems have "assembled_at ext a st rc bg t w series cells = Inr ds"
      by (simp add: c)
    from Cons.IH [OF this Cons.prems(2)] show ?thesis by auto
  next
    case (Some estimates)
    with Cons.prems(1) obtain data others where
      data: "assemble ext a st rc bg t w series estimates sub_domain_id cell = Inr data" and
      others: "assembled_at ext a st rc bg t w series cells = Inr others" and
      ds: "ds = data # others"
      by (auto simp: c split: sum.splits)
    from Cons.prems(2) ds consider "d = data" | "d \<in> set others" by auto
    then show ?thesis
    proof cases
      case 1
      with data c Some show ?thesis by auto
    next
      case 2
      from Cons.IH [OF others this] show ?thesis by auto
    qed
  qed
qed

lemma assembled_records_origin:
  "assembled_records ext a st rc t bg = Inr ds \<Longrightarrow> d \<in> set ds \<Longrightarrow>
   \<exists>sid cell bg' t' w series estimates. (sid, cell) \<in> set (mesh a) \<and>
      map_of (weather_data a) t' = Some w \<and>
      map_of (traffic_volumes a) t' = Some series \<and>
      caline_estimates a t' = Some estimates \<and>
      assemble ext a st rc bg' t' w series estimates sid cell = Inr d"
proof (induction ext a st rc t bg arbitrary: ds rule: assembled_records.induct)
  case (1 ext a st rc t bg)
  show ?case
  proof (cases "t \<le> date_end a")
    case False
    with "1.prems" show ?thesis
      by (subst (asm) assembled_records.simps) simp
  next
    case True
    with "1.prems"(1) obtain now later where
      now: "assembled_in_iteration ext a st rc t bg = Inr now" and
      later: "assembled_records ext a st rc (t + 3600) (next_background a t bg) = Inr later" and
      ds: "ds = now @ later"
      by (subst (asm) assembled_records.simps) (auto split: sum.splits)
    from "1.prems"(2) ds consider "d \<in> set now" | "d \<in> set later" by auto
    then show ?thesis
    proof cases
      case 1
      with now obtain w series where
        w: "map_of (weather_data a) t = Some w" and
        series: "map_of (traffic_volumes a) t = Some series" and
        "assembled_at ext a st rc (next_background a t bg) t w series (mesh a) = Inr now"
        by (auto simp: assembled_in_iteration_def split: option.splits)
      from assembled_at_origin [OF this(3) 1] w series show ?thesis by blast
    next
      case 2
      from "1.IH" [OF True now later 2] show ?thesis .
    qed
  qed
qed

lemma assemble_zero_std:
  assumes "assemble ext a st rc bg t w series estimates sid cell = Inr d"
  shows "\<exists>blk recs.
           input d = normalize_time st t # normalize_weather st w @ blk @ recs \<and>
           length blk = max 20 (length (links cell)) * 5 \<and>
           length recs = 2 * length (rc sid) \<and>
           (time_std st = Some 0 \<longrightarrow> \<not> is_finite (input d ! 0)) \<and>
           (\<forall>s1 s2 s3 s4. weather_std st = (s1, s2, s3, s4) \<longrightarrow>
              (s1 = Some 0 \<longrightarrow> \<not> is_finite (input d ! 1)) \<and>
              (s2 = Some 0 \<longrightarrow> \<not> is_finite (input d ! 2)) \<and>
              (s3 = Some 0 \<longrightarrow> \<not> is_finite (input d ! 3)) \<and>
              (s4 = Some 0 \<longrightarrow> \<not> is_finite (input d ! 4))) \<and>
           (\<forall>c1 c2. coord_std st = (c1, c2) \<longrightarrow>
              (c1 = Some 0 \<longrightarrow>
                 (\<forall>i<length (links cell).
                    \<not> is_finite (blk ! (5 * i)) \<and> \<not> is_finite (blk ! (5 * i + 2))) \<and>
                 (\<forall>i<length (rc sid). \<not> is_finite (recs ! (2 * i)))) \<and>
              (c2 = Some 0 \<longrightarrow>
                 (\<forall>i<length (links cell).
                    \<not> is_finite (blk ! (5 * i + 1)) \<and> \<not> is_finite (blk ! (5 * i + 3))) \<and>
                 (\<forall>i<length (rc sid). \<not> is_finite (recs ! (2 * i + 1))))) \<and>
           (volumes_std st = Some 0 \<longrightarrow>
              (\<forall>i<length (links cell). \<forall>volume.
                 map_of series (sorted_link (links cell ! i)) = Some volume \<longrightarrow>
                 \<not> is_finite (blk ! (5 * i + 4))))"
proof -
  from assemble_shape [OF assms] obtain blk recs where
    blk: "current_traffic_volume st (links_in_area (utilities a)) series (links cell) = Inr blk" and
    loop: "receptor_loop st (Pollutant ext) estimates bg (rc sid) = Inr (recs, labels d)" and
    inp: "input d = normalize_time st t # normalize_weather st w @ blk @ recs"
    by blast
  have len_blk: "length blk = max 20 (length (links cell)) * 5"
    by (rule current_traffic_volume_block(1) [OF blk])
  have len_recs: "length recs = 2 * length (rc sid)"
    using receptor_loop_lengths [OF loop] by simp
  have time: "\<not> is_finite (input d ! 0)" if "time_std st = Some 0"
    unfolding inp using that by (simp add: normalize_time_def normalize_value_zero_std)
  have wth: "input d ! Suc j = normalize_weather st w ! j" if "j < 4" for j
    unfolding inp using that by (simp add: nth_append normalize_weather_length)
  have weather:
    "(s1 = Some 0 \<longrightarrow> \<not> is_finite (input d ! 1)) \<and>
     (s2 = Some 0 \<longrightarrow> \<not> is_finite (input d ! 2)) \<and>
     (s3 = Some 0 \<longrightarrow> \<not> is_finite (input d ! 3)) \<and>
     (s4 = Some 0 \<longrightarrow> \<not> is_finite (input d ! 4))"
    if "weather_std st = (s1, s2, s3, s4)" for s1 s2 s3 s4
    using normalize_weather_zero_std [OF that, of w] wth [of 0] wth [of 1] wth [of 2] wth [of 3]
    by (simp add: eval_nat_numeral)
  have links1: "\<not> is_finite (blk ! (5 * i)) \<and> \<not> is_finite (blk ! (5 * i + 2))"
    if "coord_std st = (c1, c2)" "c1 = Some 0" "i < length (links cell)" for c1 c2 i
    using current_traffic_volume_entry [OF blk that(3)] normalize_coords_zero_std(1) [OF that(1,2)]
    by auto
  have links2: "\<not> is_finite (blk ! (5 * i + 1)) \<and> \<not> is_finite (blk ! (5 * i + 3))"
    if "coord_std st = (c1, c2)" "c2 = Some 0" "i < length (links cell)" for c1 c2 i
    using current_traffic_volume_entry [OF blk that(3)] normalize_coords_zero_std(2) [OF that(1,2)]
    by auto
  have recs1: "\<not> is_finite (recs ! (2 * i))"
    if "coord_std st = (c1, c2)" "c1 = Some 0" "i < length (rc sid)" for c1 c2 i
    using receptor_loop_coords [OF loop that(3)] normalize_coords_zero_std(1) [OF that(1,2)]
    by simp
  have recs2: "\<not> is_finite (recs ! (2 * i + 1))"
    if "coord_std st = (c1, c2)" "c2 = Some 0" "i < length (rc sid)" for c1 c2 i
    using receptor_loop_coords [OF loop that(3)] normalize_coords_zero_std(2) [OF that(1,2)]
    by simp
  have vol: "\<not> is_finite (blk ! (5 * i + 4))"
    if "volumes_std st = Some 0" "i < length (links cell)"
      "map_of series (sorted_link (links cell ! i)) = Some volume" for i volume
    using current_traffic_volume_entry [OF blk that(2)] that(1,3)
    by (auto simp: normalize_traffic_def normalize_value_zero_std)
  show ?thesis
    apply (rule exI [of _ blk], rule exI [of _ recs], intro conjI allI impI)
    using inp len_blk len_recs time weather links1 links2 recs1 recs2 vol
    by blast+
qed

lemma degenerate_compute_stats:
  "compute_stats (date_start degenerate_arguments) (date_end degenerate_arguments)
     (weather_data degenerate_arguments) (traffic_volumes degenerate_arguments)
     (utilities degenerate_arguments) = Inr degenerate_stats"
  by (simp add: compute_stats_def degenerate_arguments_def degenerate_stats_def
      example_arguments_def example_stats_def weather_statistic_def coord_statistic_def
      volumes_of_def time_interval_def np_mean_two np_std_two np_std_one np_mean_def Let_def)

lemma degenerate_receptor_coords:
  "receptor_coords example_externals degenerate_arguments =
     (\<lambda>i. if i = 7 then [(3, 1)] else if i = 6 then [(1, 1 / 2), (1, 1)] else [])"
  by (auto simp add: receptor_coords_def degenerate_arguments_def example_arguments_def
      example_externals_def example_cell_6_def example_cell_7_def in_rectangle_def fun_eq_iff)

lemma degenerate_run:
  "pre_process example_externals degenerate_arguments =
     Inr [[degenerate_record_6, degenerate_record_7]]"
  unfolding pre_process_def
  by (simp add: time_loop.simps loop_body_def initial_state_def degenerate_arguments_def
      receptor_coords_def in_rectangle_def example_defs time_step_def assemble_eval
      collect_entry_def compute_stats_def weather_statistic_def coord_statistic_def
      volumes_of_def time_interval_def np_mean_two np_std_two np_std_one np_mean_def
      max_collection_size_def final_flush_def degenerate_record_6_def degenerate_record_7_def)

text \<open>
  C2, as the code has it. \<open>pre_process\<close> has no check of the standard deviations.
  \<^item> \<open>normalize\<close> with a deviation of 0 raises nothing and returns \<open>inf\<close>, \<open>-inf\<close> or
    \<open>nan\<close> by the sign of \<open>val - mean\<close>, never a finite number; a bounding box of one
    point gives the coordinate deviations 0; the statistics step raises only for an
    empty weather series or an empty bounding box.
  \<^item> Whether the run raises, and what, does not depend on the statistics: it is the same
    as for any other statistics \<open>st'\<close>, with deviations that are not 0.
  \<^item> Every record of a run that returns holds the result of the division by each zero
    deviation: the timestamp slot for the time deviation, the four weather slots for the
    weather deviations, the coordinate slots of every link and every receptor for the
    coordinate deviations, and the volume slot of every link that has a volume for the
    volume deviation are not finite.
\<close>

theorem zero_std_is_not_detected:
  "normalize_value val (Some m) (Some 0) =
     (if m < val then PosInf else if val < m then NegInf else NaN) \<and>
   (\<forall>x. normalize_value val (Some m) (Some 0) \<noteq> Fin x) \<and>
   coord_statistic [(k, p)] = Inr ((Some (fst p), Some (snd p)), (Some 0, Some 0)) \<and>
   ((\<exists>e. compute_stats start stop wd tv u = Inl e) = (wd = [] \<or> bounding_box u = [])) \<and>
   (compute_stats (date_start a) (date_end a) (weather_data a) (traffic_volumes a)
      (utilities a) = Inr st \<longrightarrow>
    failure (pre_process ext a) =
      failure (assembled_records ext a st' (receptor_coords ext a) (date_start a)
                 (get_empirical_background_pollution ext)) \<and>
    (\<forall>batches batch r.
       pre_process ext a = Inr batches \<longrightarrow> batch \<in> set batches \<longrightarrow> r \<in> set batch \<longrightarrow>
       (\<exists>cell t w series blk recs.
          (sub_domain r, cell) \<in> set (mesh a) \<and>
          map_of (weather_data a) t = Some w \<and>
          map_of (traffic_volumes a) t = Some series \<and>
          input r = normalize_time st t # normalize_weather st w @ blk @ recs \<and>
          length blk = max 20 (length (links cell)) * 5 \<and>
          length recs = 2 * length (receptor_coords ext a (sub_domain r)) \<and>
          (time_std st = Some 0 \<longrightarrow> \<not> is_finite (input r ! 0)) \<and>
          (\<forall>s1 s2 s3 s4. weather_std st = (s1, s2, s3, s4) \<longrightarrow>
             (s1 = Some 0 \<longrightarrow> \<not> is_finite (input r ! 1)) \<and>
             (s2 = Some 0 \<longrightarrow> \<not> is_finite (input r ! 2)) \<and>
             (s3 = Some 0 \<longrightarrow> \<not> is_finite (input r ! 3)) \<and>
             (s4 = Some 0 \<longrightarrow> \<not> is_finite (input r ! 4))) \<and>
          (\<forall>c1 c2. coord_std st = (c1, c2) \<longrightarrow>
             (c1 = Some 0 \<longrightarrow>
                (\<forall>i<length (links cell).
                   \<not> is_finite (blk ! (5 * i)) \<and> \<not> is_finite (blk ! (5 * i + 2))) \<and>
                (\<forall>i<length (receptor_coords ext a (sub_domain r)).
                   \<not> is_finite (recs ! (2 * i)))) \<and>
             (c2 = Some 0 \<longrightarrow>
                (\<forall>i<length (links cell).
                   \<not> is_finite (blk ! (5 * i + 1)) \<and> \<not> is_finite (blk ! (5 * i + 3))) \<and>
                (\<forall>i<length (receptor_coords ext a (sub_domain r)).
                   \<not> is_finite (recs ! (2 * i + 1))))) \<and>
          (volumes_std st = Some 0 \<longrightarrow>
             (\<forall>i<length (links cell). \<forall>volume.
                map_of series (sorted_link (links cell ! i)) = Some volume \<longrightarrow>
                \<not> is_finite (blk ! (5 * i + 4)))))))"
proof -
  have a: "normalize_value val (Some m) (Some 0) =
     (if m < val then PosInf else if val < m then NegInf else NaN)"
    by (simp add: normalize_value_def)
  then have b: "\<forall>x. normalize_value val (Some m) (Some 0) \<noteq> Fin x"
    by simp
  have c: "coord_statistic [(k, p)] = Inr ((Some (fst p), Some (snd p)), (Some 0, Some 0))"
    by (simp add: coord_statistic_def np_mean_def np_std_one)
  have d: "(\<exists>e. compute_stats start stop wd tv u = Inl e) = (wd = [] \<or> bounding_box u = [])"
    by (auto simp: compute_stats_def weather_statistic_def coord_statistic_def Let_def
        split: sum.splits prod.splits if_splits)
  have e: "failure (pre_process ext a) =
      failure (assembled_records ext a st' (receptor_coords ext a) (date_start a)
                 (get_empirical_background_pollution ext))"
    if "compute_stats (date_start a) (date_end a) (weather_data a) (traffic_volumes a)
      (utilities a) = Inr st"
    using that by (rule pre_process_failure)
  have f: "\<exists>cell t w series blk recs.
          (sub_domain r, cell) \<in> set (mesh a) \<and>
          map_of (weather_data a) t = Some w \<and>
          map_of (traffic_volumes a) t = Some series \<and>
          input r = normalize_time st t # normalize_weather st w @ blk @ recs \<and>
          length blk = max 20 (length (links cell)) * 5 \<and>
          length recs = 2 * length (receptor_coords ext a (sub_domain r)) \<and>
          (time_std st = Some 0 \<longrightarrow> \<not> is_finite (input r ! 0)) \<and>
          (\<forall>s1 s2 s3 s4. weather_std st = (s1, s2, s3, s4) \<longrightarrow>
             (s1 = Some 0 \<longrightarrow> \<not> is_finite (input r ! 1)) \<and>
             (s2 = Some 0 \<longrightarrow> \<not> is_finite (input r ! 2)) \<and>
             (s3 = Some 0 \<longrightarrow> \<not> is_finite (input r ! 3)) \<and>
             (s4 = Some 0 \<longrightarrow> \<not> is_finite (input r ! 4))) \<and>
          (\<forall>c1 c2. coord_std st = (c1, c2) \<longrightarrow>
             (c1 = Some 0 \<longrightarrow>
                (\<forall>i<length (links cell).
                   \<not> is_finite (blk ! (5 * i)) \<and> \<not> is_finite (blk ! (5 * i + 2))) \<and>
                (\<forall>i<length (receptor_coords ext a (sub_domain r)).
                   \<not> is_finite (recs ! (2 * i)))) \<and>
             (c2 = Some 0 \<longrightarrow>
                (\<forall>i<length (links cell).
                   \<not> is_finite (blk ! (5 * i + 1)) \<and> \<not> is_finite (blk ! (5 * i + 3))) \<and>
                (\<forall>i<length (receptor_coords ext a (sub_domain r)).
                   \<not> is_finite (recs ! (2 * i + 1))))) \<and>
          (volumes_std st = Some 0 \<longrightarrow>
             (\<forall>i<length (links cell). \<forall>volume.
                map_of series (sorted_link (links cell ! i)) = Some volume \<longrightarrow>
                \<not> is_finite (blk ! (5 * i + 4))))"
    if st: "compute_stats (date_start a) (date_end a) (weather_data a) (traffic_volumes a)
      (utilities a) = Inr st"
      and run: "pre_process ext a = Inr batches" and batch: "batch \<in> set batches"
      and r: "r \<in> set batch"
    for batches batch r
  proof -
    from pre_process_batches [OF run] st obtain ds where
      ds: "assembled_records ext a st (receptor_coords ext a) (date_start a)
             (get_empirical_background_pollution ext) = Inr ds" and
      all: "concat batches = ds"
      by auto
    from batch r all have "r \<in> set ds" by auto
    from assembled_records_origin [OF ds this]
    obtain sid cell bg' t w series estimates where
      cell: "(sid, cell) \<in> set (mesh a)" and
      w: "map_of (weather_data a) t = Some w" and
      series: "map_of (traffic_volumes a) t = Some series" and
      asm: "assemble ext a st (receptor_coords ext a) bg' t w series estimates sid cell = Inr r"
      by blast
    from assemble_shape [OF asm] have sid: "sub_domain r = sid" by blast
    from assemble_zero_std [OF asm] obtain blk recs where
      marks: "input r = normalize_time st t # normalize_weather st w @ blk @ recs \<and>
          length blk = max 20 (length (links cell)) * 5 \<and>
          length recs = 2 * length (receptor_coords ext a sid) \<and>
          (time_std st = Some 0 \<longrightarrow> \<not> is_finite (input r ! 0)) \<and>
          (\<forall>s1 s2 s3 s4. weather_std st = (s1, s2, s3, s4) \<longrightarrow>
             (s1 = Some 0 \<longrightarrow> \<not> is_finite (input r ! 1)) \<and>
             (s2 = Some 0 \<longrightarrow> \<not> is_finite (input r ! 2)) \<and>
             (s3 = Some 0 \<longrightarrow> \<not> is_finite (input r ! 3)) \<and>
             (s4 = Some 0 \<longrightarrow> \<not> is_finite (input r ! 4))) \<and>
          (\<forall>c1 c2. coord_std st = (c1, c2) \<longrightarrow>
             (c1 = Some 0 \<longrightarrow>
                (\<forall>i<length (links cell).
                   \<not> is_finite (blk ! (5 * i)) \<and> \<not> is_finite (blk ! (5 * i + 2))) \<and>
                (\<forall>i<length (receptor_coords ext a sid).
                   \<not> is_finite (recs ! (2 * i)))) \<and>
             (c2 = Some 0 \<longrightarrow>
                (\<forall>i<length (links cell).
                   \<not> is_finite (blk ! (5 * i + 1)) \<and> \<not> is_finite (blk ! (5 * i + 3))) \<and>
                (\<forall>i<length (receptor_coords ext a sid).
                   \<not> is_finite (recs ! (2 * i + 1))))) \<and>
          (volumes_std st = Some 0 \<longrightarrow>
             (\<forall>i<length (links cell). \<forall>volume.
                map_of series (sorted_link (links cell ! i)) = Some volume \<longrightarrow>
                \<not> is_finite (blk ! (5 * i + 4))))"
      by (elim exE)
    show ?thesis
      unfolding sid
      apply (rule exI [of _ cell], rule exI [of _ t], rule exI [of _ w],
          rule exI [of _ series], rule exI [of _ blk], rule exI [of _ recs])
      apply (rule conjI [OF cell], rule conjI [OF w], rule conjI [OF series])
      apply (rule marks)
      done
  qed
  show ?thesis
    apply (intro conjI impI allI)
         apply (rule a)
        apply (rule b [rule_format])
       apply (rule c)
      apply (rule d)
     apply (erule e)
    apply (erule (3) f)
    done
qed

theorem zero_std_is_not_detected_witness:
  "normalize_value 2 (Some 0) (Some 0) = PosInf \<and>
   normalize_value 0 (Some 0) (Some 0) = NaN \<and>
   compute_stats (date_start degenerate_arguments) (date_end degenerate_arguments)
     (weather_data degenerate_arguments) (traffic_volumes degenerate_arguments)
     (utilities degenerate_arguments) = Inr degenerate_stats \<and>
   coord_std degenerate_stats = (Some 0, Some 0) \<and>
   pre_process example_externals degenerate_arguments =
     Inr [[degenerate_record_6, degenerate_record_7]] \<and>
   failure (assembled_records example_externals degenerate_arguments example_stats
              (receptor_coords example_externals degenerate_arguments)
              (date_start degenerate_arguments)
              (get_empirical_background_pollution example_externals)) = None \<and>
   \<not> is_finite (input degenerate_record_7 ! 105) \<and>
   \<not> is_finite (input degenerate_record_7 ! 106)"
proof -
  note zs = zero_std_is_not_detected
  from zs [of 2 0] have pos: "normalize_value 2 (Some 0) (Some 0) = PosInf"
    by simp
  from zs [of 0 0] have nan: "normalize_value 0 (Some 0) (Some 0) = NaN"
    by simp
  have std: "coord_std degenerate_stats = (Some 0, Some 0)"
    by (simp add: degenerate_stats_def)
  note run = zs [of _ _ _ _ _ _ _ _ _ degenerate_arguments degenerate_stats example_externals,
      THEN conjunct2, THEN conjunct2, THEN conjunct2, THEN conjunct2, rule_format,
      OF degenerate_compute_stats]
  from run [of example_stats, THEN conjunct1] degenerate_run
  have same: "failure (assembled_records example_externals degenerate_arguments example_stats
              (receptor_coords example_externals degenerate_arguments)
              (date_start degenerate_arguments)
              (get_empirical_background_pollution example_externals)) = None"
    by simp
  have batch: "[degenerate_record_6, degenerate_record_7] \<in>
      set [[degenerate_record_6, degenerate_record_7]]"
    and r: "degenerate_record_7 \<in> set [degenerate_record_6, degenerate_record_7]"
    by simp_all
  have sid: "sub_domain degenerate_record_7 = 7"
    by (simp add: degenerate_record_7_def)
  from run [THEN conjunct2, rule_format, OF degenerate_run batch r]
  obtain cell t w blk recs where
    cell: "(7, cell) \<in> set (mesh degenerate_arguments)" and
    inp: "input degenerate_record_7 =
            normalize_time degenerate_stats t # normalize_weather degenerate_stats w @ blk @ recs" and
    len_blk: "length blk = max 20 (length (links cell)) * 5" and
    len_recs: "length recs = 2 * 1" and
    lat: "\<not> is_finite (recs ! (2 * 0))" and lon: "\<not> is_finite (recs ! (2 * 0 + 1))"
    unfolding sid degenerate_receptor_coords using std by auto
  from cell have "cell = example_cell_7"
    by (simp add: degenerate_arguments_def example_arguments_def)
  with len_blk have "length blk = 100"
    by (simp add: example_cell_7_def)
  with len_recs have "input degenerate_record_7 ! 105 = recs ! 0"
    and "input degenerate_record_7 ! 106 = recs ! 1"
    unfolding inp by (simp_all add: nth_append normalize_weather_length)
  with lat lon have "\<not> is_finite (input degenerate_record_7 ! 105)"
    and "\<not> is_finite (input degenerate_record_7 ! 106)"
    by simp_all
  with pos nan degenerate_compute_stats std degenerate_run same show ?thesis
    by blast
qed

theorem zero_std_counterexample:
  "coord_statistic (bounding_box (utilities degenerate_arguments)) =
     Inr ((Some 0, Some 0), (Some 0, Some 0)) \<and>
   pre_process example_externals degenerate_arguments =
     Inr [[degenerate_record_6, degenerate_record_7]] \<and>
   input degenerate_record_7 ! 105 = PosInf"
proof -
  have "coord_statistic (bounding_box (utilities degenerate_arguments)) =
     Inr ((Some 0, Some 0), (Some 0, Some 0))"
    by (simp add: degenerate_arguments_def coord_statistic_def np_mean_def np_std_one)
  moreover have "input degenerate_record_7 ! 105 = PosInf"
    by (simp add: degenerate_record_7_def nth_append)
  ultimately show ?thesis
    using degenerate_run by blast
qed

end
